theory Spec2Isabelle
  imports Main "HOL-Library.Word" "HOL-Library.AList"
begin

unbundle bit_operations_syntax

section \<open>The node list handed over by libmaxminddb\<close>

text \<open>
  \<^verbatim>\<open>maxminddb.c\<close> receives a singly linked \<^verbatim>\<open>MMDB_entry_data_list_s\<close>: each cell
  holds one \<^verbatim>\<open>MMDB_entry_data_s\<close> and a \<^verbatim>\<open>next\<close> pointer. The 128-bit payload is
  \<^verbatim>\<open>uint8_t[16]\<close> when libmaxminddb is built with \<^verbatim>\<open>MMDB_UINT128_IS_BYTE_ARRAY\<close>
  and a native \<^verbatim>\<open>unsigned __int128\<close> otherwise; one build produces one of the two
  shapes only.
\<close>

datatype mmdb_uint128_t =
    Uint128_bytes "8 word list"
  | Uint128_native "128 word"

text \<open>
  The payload is a C union; the record gives every member the view the decoder reads
  through it. \<open>utf8_string\<close> and \<open>bytes\<close> are the octets found at the payload pointer
  (at least \<open>data_size\<close> of them). \<open>double_value\<close> and \<open>float_value\<close> are the IEEE 754
  binary64 and binary32 bit patterns.
\<close>

record MMDB_entry_data_s =
  utf8_string :: string
  double_value :: "64 word"
  bytes :: "8 word list"
  uint16 :: "16 word"
  uint32 :: "32 word"
  int32 :: "32 word"
  uint64 :: "64 word"
  uint128 :: mmdb_uint128_t
  boolean :: bool
  float_value :: "32 word"
  data_size :: "32 word"
  type :: "32 word"

text \<open>
  A pointer to a list cell is the list that starts there: \<open>[]\<close> is \<^verbatim>\<open>NULL\<close>, and
  \<^verbatim>\<open>p->next\<close> of \<open>e # es\<close> is \<open>es\<close>. The decoder's \<^verbatim>\<open>MMDB_entry_data_list_s **\<close>
  argument is a cursor variable of this type, passed in and returned.
\<close>

type_synonym entry_data_list = "MMDB_entry_data_s list"

text \<open>The type tags of libmaxminddb's \<^verbatim>\<open>maxminddb.h\<close>.\<close>

definition MMDB_DATA_TYPE_UTF8_STRING :: "32 word" where "MMDB_DATA_TYPE_UTF8_STRING = 2"
definition MMDB_DATA_TYPE_DOUBLE :: "32 word" where "MMDB_DATA_TYPE_DOUBLE = 3"
definition MMDB_DATA_TYPE_BYTES :: "32 word" where "MMDB_DATA_TYPE_BYTES = 4"
definition MMDB_DATA_TYPE_UINT16 :: "32 word" where "MMDB_DATA_TYPE_UINT16 = 5"
definition MMDB_DATA_TYPE_UINT32 :: "32 word" where "MMDB_DATA_TYPE_UINT32 = 6"
definition MMDB_DATA_TYPE_MAP :: "32 word" where "MMDB_DATA_TYPE_MAP = 7"
definition MMDB_DATA_TYPE_INT32 :: "32 word" where "MMDB_DATA_TYPE_INT32 = 8"
definition MMDB_DATA_TYPE_UINT64 :: "32 word" where "MMDB_DATA_TYPE_UINT64 = 9"
definition MMDB_DATA_TYPE_UINT128 :: "32 word" where "MMDB_DATA_TYPE_UINT128 = 10"
definition MMDB_DATA_TYPE_ARRAY :: "32 word" where "MMDB_DATA_TYPE_ARRAY = 11"
definition MMDB_DATA_TYPE_BOOLEAN :: "32 word" where "MMDB_DATA_TYPE_BOOLEAN = 14"
definition MMDB_DATA_TYPE_FLOAT :: "32 word" where "MMDB_DATA_TYPE_FLOAT = 15"

lemmas MMDB_DATA_TYPE_defs =
  MMDB_DATA_TYPE_UTF8_STRING_def MMDB_DATA_TYPE_DOUBLE_def MMDB_DATA_TYPE_BYTES_def
  MMDB_DATA_TYPE_UINT16_def MMDB_DATA_TYPE_UINT32_def MMDB_DATA_TYPE_MAP_def
  MMDB_DATA_TYPE_INT32_def MMDB_DATA_TYPE_UINT64_def MMDB_DATA_TYPE_UINT128_def
  MMDB_DATA_TYPE_ARRAY_def MMDB_DATA_TYPE_BOOLEAN_def MMDB_DATA_TYPE_FLOAT_def


section \<open>Python objects and failures\<close>

text \<open>
  The objects the extension builds. A \<^verbatim>\<open>dict\<close> with \<^verbatim>\<open>str\<close> keys is an association
  list in insertion order; a \<^verbatim>\<open>str\<close> is identified with its UTF-8 octets. Python
  has one floating-point type, holding a C \<^verbatim>\<open>double\<close>. \<open>NULL\<close> is the null object
  pointer: the empty slot of a list fresh from \<^verbatim>\<open>PyList_New\<close>, and what a constructor
  returns when it fails. Object allocation is taken to succeed: the
  \<^verbatim>\<open>PyErr_NoMemory\<close> exits are not part of the model.
\<close>

datatype PyObject =
    NULL
  | PyNone
  | PyBool bool
  | PyLong int
  | PyFloat "64 word"
  | PyUnicode string
  | PyByteArray "8 word list"
  | PyList "PyObject list"
  | PyDict "(string \<times> PyObject) list"
  | Metadata_obj PyObject PyObject PyObject PyObject PyObject PyObject PyObject PyObject PyObject

text \<open>
  A failed call: a Python exception left pending, or a read through a \<^verbatim>\<open>NULL\<close> node
  pointer, which is undefined behaviour in C and ends the process in practice.
  \<open>Invalid_data_type t\<close> is \<^verbatim>\<open>MaxMindDB_error\<close> with the message
  \<^verbatim>\<open>"Invalid data type arguments: %d"\<close> formatted with the tag \<open>t\<close>.
\<close>

datatype error =
    NULL_dereference
  | Invalid_data_type "32 word"
  | InvalidDatabaseError string
  | IOError string
  | ValueError string
  | UnicodeDecodeError
  | PyArg_ParseTuple_error


section \<open>The CPython calls the decoder makes\<close>

text \<open>
  \<^verbatim>\<open>PyUnicode_FromStringAndSize(p, n)\<close> decodes the first \<open>n\<close> octets at \<open>p\<close> as UTF-8,
  strictly: it accepts the well-formed sequences of the Unicode standard (no overlong
  forms, no surrogates, nothing above U+10FFFF, no sequence cut short) and otherwise
  returns \<^verbatim>\<open>NULL\<close> with \<^verbatim>\<open>UnicodeDecodeError\<close> pending.
  \<^verbatim>\<open>PyByteArray_FromStringAndSize(p, n)\<close> copies the first \<open>n\<close> octets at \<open>p\<close>.
\<close>

definition octet_in :: "nat \<Rightarrow> nat \<Rightarrow> char \<Rightarrow> bool" where
  "octet_in lo hi c \<longleftrightarrow> lo \<le> (of_char c :: nat) \<and> (of_char c :: nat) \<le> hi"

definition utf8_lead2 :: "char \<Rightarrow> bool" where
  "utf8_lead2 c \<longleftrightarrow> octet_in 0xC2 0xDF c"

definition utf8_lead3 :: "char \<Rightarrow> char \<Rightarrow> bool" where
  "utf8_lead3 c c1 \<longleftrightarrow>
     octet_in 0xE0 0xE0 c \<and> octet_in 0xA0 0xBF c1 \<or>
     (octet_in 0xE1 0xEC c \<or> octet_in 0xEE 0xEF c) \<and> octet_in 0x80 0xBF c1 \<or>
     octet_in 0xED 0xED c \<and> octet_in 0x80 0x9F c1"

definition utf8_lead4 :: "char \<Rightarrow> char \<Rightarrow> bool" where
  "utf8_lead4 c c1 \<longleftrightarrow>
     octet_in 0xF0 0xF0 c \<and> octet_in 0x90 0xBF c1 \<or>
     octet_in 0xF1 0xF3 c \<and> octet_in 0x80 0xBF c1 \<or>
     octet_in 0xF4 0xF4 c \<and> octet_in 0x80 0x8F c1"

fun utf8_ok :: "string \<Rightarrow> bool" where
  "utf8_ok [] = True"
| "utf8_ok (c # cs) =
     (if octet_in 0x00 0x7F c then utf8_ok cs
      else case cs of
             [] \<Rightarrow> False
           | c1 # cs1 \<Rightarrow>
               if utf8_lead2 c then octet_in 0x80 0xBF c1 \<and> utf8_ok cs1
               else case cs1 of
                      [] \<Rightarrow> False
                    | c2 # cs2 \<Rightarrow>
                        if utf8_lead3 c c1 then octet_in 0x80 0xBF c2 \<and> utf8_ok cs2
                        else case cs2 of
                               [] \<Rightarrow> False
                             | c3 # cs3 \<Rightarrow>
                                 utf8_lead4 c c1 \<and> octet_in 0x80 0xBF c2 \<and>
                                 octet_in 0x80 0xBF c3 \<and> utf8_ok cs3)"

definition PyUnicode_FromStringAndSize :: "string \<Rightarrow> 32 word \<Rightarrow> PyObject" where
  "PyUnicode_FromStringAndSize p n =
     (if utf8_ok (take (unat n) p) then PyUnicode (take (unat n) p) else NULL)"

definition PyByteArray_FromStringAndSize :: "8 word list \<Rightarrow> 32 word \<Rightarrow> PyObject" where
  "PyByteArray_FromStringAndSize p n = PyByteArray (take (unat n) p)"

text \<open>
  \<^verbatim>\<open>PyLong_FromLong\<close> takes a C \<^verbatim>\<open>long\<close>, whose width \<open>LONG_BIT\<close> is fixed by the
  platform (64 on LP64, 32 on ILP32 and LLP64; at least 32 by the C standard). The
  argument is converted to \<^verbatim>\<open>long\<close> at the call: a value the type cannot hold is
  reduced modulo \<open>2 ^ LONG_BIT\<close>, as gcc, clang and MSVC define the conversion.
\<close>

definition PyLong_FromLong :: "nat \<Rightarrow> int \<Rightarrow> PyObject" where
  "PyLong_FromLong LONG_BIT v = PyLong (signed_take_bit (LONG_BIT - 1) v)"

definition PyLong_FromUnsignedLongLong :: "64 word \<Rightarrow> PyObject" where
  "PyLong_FromUnsignedLongLong v = PyLong (uint v)"

definition PyBool_FromLong :: "int \<Rightarrow> PyObject" where
  "PyBool_FromLong v = PyBool (v \<noteq> 0)"

text \<open>
  \<^verbatim>\<open>PyFloat_FromDouble\<close> takes a \<^verbatim>\<open>double\<close>. A \<^verbatim>\<open>float\<close> argument is converted by the
  compiler; the conversion is exact, and written out here on the bit patterns
  (1 sign bit, 8 exponent bits biased by 127 and 23 fraction bits become 1, 11 biased
  by 1023, and 52). A signalling NaN comes out quiet.
\<close>

fun bit_length :: "nat \<Rightarrow> nat" where
  "bit_length n = (if n = 0 then 0 else Suc (bit_length (n div 2)))"

declare bit_length.simps [simp del]

definition float_to_double :: "32 word \<Rightarrow> 64 word" where
  "float_to_double f =
     (let sign = push_bit 63 (ucast (drop_bit 31 f)) :: 64 word;
          e = unat (drop_bit 23 f AND 0xFF);
          m = unat (f AND 0x7FFFFF)
      in if e = 255 then
           sign OR push_bit 52 0x7FF OR
             (if m = 0 then 0 else push_bit 51 1 OR push_bit 29 (of_nat m))
         else if e = 0 then
           (if m = 0 then sign
            else let p = bit_length m - 1
                 in sign OR push_bit 52 (of_nat (p + 874)) OR
                    push_bit (52 - p) (of_nat (m - 2 ^ p)))
         else sign OR push_bit 52 (of_nat (e + 896)) OR push_bit 29 (of_nat m))"

definition PyFloat_FromDouble :: "64 word \<Rightarrow> PyObject" where
  "PyFloat_FromDouble d = PyFloat d"

text \<open>
  \<^verbatim>\<open>PyList_New(n)\<close> is a list of \<open>n\<close> empty slots and \<^verbatim>\<open>PyList_SetItem\<close> fills one;
  \<^verbatim>\<open>PyDict_SetItem\<close> replaces the value of a key already present and appends a new
  key otherwise. The decoder ignores what the two setters return.
\<close>

definition PyList_New :: "32 word \<Rightarrow> PyObject" where
  "PyList_New n = PyList (replicate (unat n) NULL)"

fun PyList_SetItem :: "PyObject \<Rightarrow> nat \<Rightarrow> PyObject \<Rightarrow> PyObject" where
  "PyList_SetItem (PyList xs) i v = PyList (xs[i := v])"
| "PyList_SetItem obj i v = obj"

definition PyDict_New :: PyObject where
  "PyDict_New = PyDict []"

fun PyDict_SetItem :: "PyObject \<Rightarrow> PyObject \<Rightarrow> PyObject \<Rightarrow> PyObject" where
  "PyDict_SetItem (PyDict kvs) (PyUnicode k) v = PyDict (AList.update k v kvs)"
| "PyDict_SetItem obj key v = obj"

text \<open>
  \<^verbatim>\<open>snprintf\<close> with \<^verbatim>\<open>"%016" PRIX64\<close> writes a 64-bit value as sixteen upper-case
  hexadecimal digits, and \<^verbatim>\<open>PyLong_FromString(s, NULL, 16)\<close> reads a string of
  hexadecimal digits back into a Python integer, failing on any other character.
\<close>

definition hex_digit :: "nat \<Rightarrow> char" where
  "hex_digit d = ''0123456789ABCDEF'' ! d"

fun hex_digits :: "nat \<Rightarrow> nat \<Rightarrow> string" where
  "hex_digits 0 n = []"
| "hex_digits (Suc k) n = hex_digits k (n div 16) @ [hex_digit (n mod 16)]"

definition PRIX64_016 :: "64 word \<Rightarrow> string" where
  "PRIX64_016 w = hex_digits 16 (unat w)"

definition digit_value :: "char \<Rightarrow> nat option" where
  "digit_value c =
     (let n = of_char c :: nat
      in if 48 \<le> n \<and> n \<le> 57 then Some (n - 48)
         else if 65 \<le> n \<and> n \<le> 70 then Some (n - 55)
         else if 97 \<le> n \<and> n \<le> 102 then Some (n - 87)
         else None)"

fun hex_value :: "int \<Rightarrow> string \<Rightarrow> int option" where
  "hex_value acc [] = Some acc"
| "hex_value acc (c # cs) =
     (case digit_value c of
        None \<Rightarrow> None
      | Some d \<Rightarrow> hex_value (acc * 16 + int d) cs)"

definition PyLong_FromString_16 :: "string \<Rightarrow> error + PyObject" where
  "PyLong_FromString_16 s =
     (if s = [] then Inl (ValueError ''invalid literal for int() with base 16'')
      else case hex_value 0 s of
             None \<Rightarrow> Inl (ValueError ''invalid literal for int() with base 16'')
           | Some n \<Rightarrow> Inr (PyLong n))"


section \<open>The decoder\<close>

text \<open>
  \<^verbatim>\<open>from_uint128\<close>: the two halves are read from the sixteen octets, most significant
  first, or split off the native value; they are printed as thirty-two hexadecimal
  digits and parsed back.
\<close>

definition from_uint128 :: "entry_data_list \<Rightarrow> error + PyObject" where
  "from_uint128 entry_data_list =
     (case entry_data_list of
        [] \<Rightarrow> Inl NULL_dereference
      | e # _ \<Rightarrow>
          (let (high, low) =
                 (case uint128 e of
                    Uint128_bytes b \<Rightarrow>
                      (foldl (\<lambda>high i. push_bit 8 high OR ucast (b ! i)) (0 :: 64 word) [0..<8],
                       foldl (\<lambda>low i. push_bit 8 low OR ucast (b ! i)) (0 :: 64 word) [8..<16])
                  | Uint128_native u \<Rightarrow>
                      (ucast (drop_bit 64 u), ucast u))
           in PyLong_FromString_16 (PRIX64_016 high @ PRIX64_016 low)))"

text \<open>
  \<^verbatim>\<open>from_entry_data_list\<close>, \<^verbatim>\<open>from_map\<close> and \<^verbatim>\<open>from_array\<close> with their \<^verbatim>\<open>for\<close> loops.
  Each takes the cursor and returns the object with the cursor as it leaves it, or the
  failure. The loop condition \<^verbatim>\<open>i < size && entry_data_list\<close> tests the address of
  the cursor variable, which is never \<^verbatim>\<open>NULL\<close>, so only \<^verbatim>\<open>i < size\<close> remains. Reading
  \<^verbatim>\<open>->next\<close> or \<^verbatim>\<open>->entry_data\<close> through a \<^verbatim>\<open>NULL\<close> cursor is \<open>NULL_dereference\<close>.
  \<^verbatim>\<open>from_map\<close> does not test the key it makes: when the key is \<^verbatim>\<open>NULL\<close>, \<^verbatim>\<open>Py_DECREF(key)\<close>
  on the failure path and \<^verbatim>\<open>PyDict_SetItem(py_obj, key, value)\<close> otherwise read through
  it, which is \<open>NULL_dereference\<close> as well.
\<close>

function from_entry_data_list :: "nat \<Rightarrow> entry_data_list \<Rightarrow> error + (PyObject \<times> entry_data_list)"
  and from_map :: "nat \<Rightarrow> entry_data_list \<Rightarrow> error + (PyObject \<times> entry_data_list)"
  and from_map_loop ::
    "nat \<Rightarrow> nat \<Rightarrow> nat \<Rightarrow> PyObject \<Rightarrow> entry_data_list \<Rightarrow> error + (PyObject \<times> entry_data_list)"
  and from_array :: "nat \<Rightarrow> entry_data_list \<Rightarrow> error + (PyObject \<times> entry_data_list)"
  and from_array_loop ::
    "nat \<Rightarrow> nat \<Rightarrow> nat \<Rightarrow> PyObject \<Rightarrow> entry_data_list \<Rightarrow> error + (PyObject \<times> entry_data_list)"
where
  "from_entry_data_list LONG_BIT entry_data_list =
     (case entry_data_list of
        [] \<Rightarrow> Inl NULL_dereference
      | e # _ \<Rightarrow>
          if type e = MMDB_DATA_TYPE_MAP then from_map LONG_BIT entry_data_list
          else if type e = MMDB_DATA_TYPE_ARRAY then from_array LONG_BIT entry_data_list
          else if type e = MMDB_DATA_TYPE_UTF8_STRING then
            (let py_obj = PyUnicode_FromStringAndSize (utf8_string e) (data_size e)
             in if py_obj = NULL then Inl UnicodeDecodeError else Inr (py_obj, entry_data_list))
          else if type e = MMDB_DATA_TYPE_BYTES then
            Inr (PyByteArray_FromStringAndSize (bytes e) (data_size e), entry_data_list)
          else if type e = MMDB_DATA_TYPE_DOUBLE then
            Inr (PyFloat_FromDouble (double_value e), entry_data_list)
          else if type e = MMDB_DATA_TYPE_FLOAT then
            Inr (PyFloat_FromDouble (float_to_double (float_value e)), entry_data_list)
          else if type e = MMDB_DATA_TYPE_UINT16 then
            Inr (PyLong_FromLong LONG_BIT (uint (uint16 e)), entry_data_list)
          else if type e = MMDB_DATA_TYPE_UINT32 then
            Inr (PyLong_FromLong LONG_BIT (uint (uint32 e)), entry_data_list)
          else if type e = MMDB_DATA_TYPE_BOOLEAN then
            Inr (PyBool_FromLong (if boolean e then 1 else 0), entry_data_list)
          else if type e = MMDB_DATA_TYPE_UINT64 then
            Inr (PyLong_FromUnsignedLongLong (uint64 e), entry_data_list)
          else if type e = MMDB_DATA_TYPE_UINT128 then
            (case from_uint128 entry_data_list of
               Inl err \<Rightarrow> Inl err
             | Inr py_obj \<Rightarrow> Inr (py_obj, entry_data_list))
          else if type e = MMDB_DATA_TYPE_INT32 then
            Inr (PyLong_FromLong LONG_BIT (sint (int32 e)), entry_data_list)
          else Inl (Invalid_data_type (type e)))"
| "from_map LONG_BIT entry_data_list =
     (case entry_data_list of
        [] \<Rightarrow> Inl NULL_dereference
      | e # _ \<Rightarrow> from_map_loop LONG_BIT 0 (unat (data_size e)) PyDict_New entry_data_list)"
| "from_map_loop LONG_BIT i map_size py_obj entry_data_list =
     (if i < map_size then
        (case entry_data_list of
           [] \<Rightarrow> Inl NULL_dereference
         | _ # [] \<Rightarrow> Inl NULL_dereference
         | _ # k # entry_data_list2 \<Rightarrow>
             (let key = PyUnicode_FromStringAndSize (utf8_string k) (data_size k)
              in case from_entry_data_list LONG_BIT entry_data_list2 of
                   Inl err \<Rightarrow> if key = NULL then Inl NULL_dereference else Inl err
                 | Inr (value, entry_data_list3) \<Rightarrow>
                     if key = NULL then Inl NULL_dereference
                     else from_map_loop LONG_BIT (i + 1) map_size
                            (PyDict_SetItem py_obj key value) entry_data_list3))
      else Inr (py_obj, entry_data_list))"
| "from_array LONG_BIT entry_data_list =
     (case entry_data_list of
        [] \<Rightarrow> Inl NULL_dereference
      | e # _ \<Rightarrow>
          from_array_loop LONG_BIT 0 (unat (data_size e)) (PyList_New (data_size e))
            entry_data_list)"
| "from_array_loop LONG_BIT i size' py_obj entry_data_list =
     (if i < size' then
        (case entry_data_list of
           [] \<Rightarrow> Inl NULL_dereference
         | _ # entry_data_list1 \<Rightarrow>
             (case from_entry_data_list LONG_BIT entry_data_list1 of
                Inl err \<Rightarrow> Inl err
              | Inr (value, entry_data_list2) \<Rightarrow>
                  from_array_loop LONG_BIT (i + 1) size'
                    (PyList_SetItem py_obj i value) entry_data_list2))
      else Inr (py_obj, entry_data_list))"
  by pat_completeness auto


section \<open>The Reader object\<close>

text \<open>
  libmaxminddb is a library outside this repository. An open database is modelled by
  what its calls answer: \<^verbatim>\<open>MMDB_lookup_string\<close> with the two error codes, the
  \<^verbatim>\<open>found_entry\<close> flag and, for the entry found, the status and the list of
  \<^verbatim>\<open>MMDB_get_entry_data_list\<close>; the list of \<^verbatim>\<open>MMDB_get_metadata_as_entry_data_list\<close>;
  and the message table of \<^verbatim>\<open>MMDB_strerror\<close>.
\<close>

record MMDB_lookup_result_s =
  gai_error :: int
  mmdb_error :: int
  found_entry :: bool
  get_entry_data_list_status :: int
  get_entry_data_list :: entry_data_list

record MMDB_s =
  MMDB_lookup_string :: "string \<Rightarrow> MMDB_lookup_result_s"
  MMDB_get_metadata_as_entry_data_list :: entry_data_list
  MMDB_strerror :: "int \<Rightarrow> string"

definition MMDB_SUCCESS :: int where "MMDB_SUCCESS = 0"
definition MMDB_IPV6_LOOKUP_IN_IPV4_DATABASE_ERROR :: int where
  "MMDB_IPV6_LOOKUP_IN_IPV4_DATABASE_ERROR = 11"

text \<open>\<^verbatim>\<open>Reader_obj\<close>: the handle is \<^verbatim>\<open>NULL\<close> (\<open>None\<close>) once the reader is closed.\<close>

record Reader_obj =
  mmdb :: "MMDB_s option"

text \<open>
  \<^verbatim>\<open>PyArg_ParseTuple(args, "s", &ip_address)\<close> accepts an argument tuple of exactly
  one \<^verbatim>\<open>str\<close> without an embedded NUL and leaves an exception pending otherwise.
\<close>

fun PyArg_ParseTuple_s :: "PyObject list \<Rightarrow> string option" where
  "PyArg_ParseTuple_s [PyUnicode s] = (if CHR 0x00 \<in> set s then None else Some s)"
| "PyArg_ParseTuple_s args = None"

fun PyDict_Check :: "PyObject \<Rightarrow> bool" where
  "PyDict_Check (PyDict kvs) = True"
| "PyDict_Check obj = False"

fun PyDict_GetItemString :: "PyObject \<Rightarrow> string \<Rightarrow> PyObject option" where
  "PyDict_GetItemString (PyDict kvs) k = map_of kvs k"
| "PyDict_GetItemString obj k = None"

text \<open>
  The three methods take the reader and return what the call gives back to Python
  together with the reader as the call leaves it.
\<close>

definition Reader_get ::
  "nat \<Rightarrow> Reader_obj \<Rightarrow> PyObject list \<Rightarrow> (error + PyObject) \<times> Reader_obj" where
  "Reader_get LONG_BIT self args =
     (case PyArg_ParseTuple_s args of
        None \<Rightarrow> (Inl PyArg_ParseTuple_error, self)
      | Some ip_address \<Rightarrow>
          (case mmdb self of
             None \<Rightarrow> (Inl (IOError ''Attempt to read from a closed MaxMind DB.''), self)
           | Some db \<Rightarrow>
               (let result = MMDB_lookup_string db ip_address
                in if gai_error result \<noteq> 0 then
                     (Inl (ValueError (''The value \"'' @ ip_address @
                        ''\" is not a valid IP address.'')), self)
                   else if mmdb_error result \<noteq> MMDB_SUCCESS then
                     (if mmdb_error result = MMDB_IPV6_LOOKUP_IN_IPV4_DATABASE_ERROR then
                        (Inl (ValueError (''Error looking up '' @ ip_address @ ''. '' @
                           MMDB_strerror db (mmdb_error result))), self)
                      else
                        (Inl (InvalidDatabaseError (''Error looking up '' @ ip_address @
                           ''. '' @ MMDB_strerror db (mmdb_error result))), self))
                   else if \<not> found_entry result then (Inr PyNone, self)
                   else if get_entry_data_list_status result \<noteq> MMDB_SUCCESS then
                     (Inl (InvalidDatabaseError (''Error while looking up data for '' @
                        ip_address @ ''. '' @
                        MMDB_strerror db (get_entry_data_list_status result))), self)
                   else if get_entry_data_list result = [] then
                     (Inl (InvalidDatabaseError (''Error while looking up data for '' @
                        ip_address @ ''. Your database may be corrupt or you have found '' @
                        ''a bug in libmaxminddb.'')), self)
                   else
                     (case from_entry_data_list LONG_BIT (get_entry_data_list result) of
                        Inl err \<Rightarrow> (Inl err, self)
                      | Inr (py_obj, _) \<Rightarrow> (Inr py_obj, self)))))"

definition Reader_metadata ::
  "nat \<Rightarrow> Reader_obj \<Rightarrow> (error + PyObject) \<times> Reader_obj" where
  "Reader_metadata LONG_BIT self =
     (case mmdb self of
        None \<Rightarrow> (Inl (IOError ''Attempt to read from a closed MaxMind DB.''), self)
      | Some db \<Rightarrow>
          (case from_entry_data_list LONG_BIT (MMDB_get_metadata_as_entry_data_list db) of
             Inl NULL_dereference \<Rightarrow> (Inl NULL_dereference, self)
           | Inl _ \<Rightarrow> (Inl (InvalidDatabaseError ''Error decoding metadata.''), self)
           | Inr (metadata_dict, _) \<Rightarrow>
               if \<not> PyDict_Check metadata_dict then
                 (Inl (InvalidDatabaseError ''Error decoding metadata.''), self)
               else
                 (case those (map (PyDict_GetItemString metadata_dict)
                         [''binary_format_major_version'', ''binary_format_minor_version'',
                          ''build_epoch'', ''database_type'', ''description'',
                          ''ip_version'', ''languages'', ''node_count'', ''record_size'']) of
                    Some [major, minor, build_epoch, database_type, description,
                          ip_version, languages, node_count, record_size] \<Rightarrow>
                      (Inr (Metadata_obj major minor build_epoch database_type description
                              ip_version languages node_count record_size), self)
                  | _ \<Rightarrow> (Inl (InvalidDatabaseError ''Error decoding metadata.''), self))))"

definition Reader_close :: "Reader_obj \<Rightarrow> (error + PyObject) \<times> Reader_obj" where
  "Reader_close self =
     (case mmdb self of
        None \<Rightarrow> (Inl (IOError ''Attempt to close a closed MaxMind DB.''), self)
      | Some db \<Rightarrow> (Inr PyNone, self\<lparr>mmdb := None\<rparr>))"

text \<open>A Python program's use of one reader: a sequence of method calls.\<close>

datatype call = Get "PyObject list" | Metadata | Close

fun Reader_call :: "nat \<Rightarrow> Reader_obj \<Rightarrow> call \<Rightarrow> (error + PyObject) \<times> Reader_obj" where
  "Reader_call LONG_BIT self (Get args) = Reader_get LONG_BIT self args"
| "Reader_call LONG_BIT self Metadata = Reader_metadata LONG_BIT self"
| "Reader_call LONG_BIT self Close = Reader_close self"

fun Reader_calls ::
  "nat \<Rightarrow> Reader_obj \<Rightarrow> call list \<Rightarrow> (error + PyObject) list \<times> Reader_obj" where
  "Reader_calls LONG_BIT self [] = ([], self)"
| "Reader_calls LONG_BIT self (c # cs) =
     (let (r, self1) = Reader_call LONG_BIT self c;
          (rs, self2) = Reader_calls LONG_BIT self1 cs
      in (r # rs, self2))"


section \<open>Nodes for worked examples\<close>

text \<open>
  \<open>entry_data t n\<close> is a node of type \<open>t\<close> and size \<open>n\<close> with every payload member
  zero; record update then sets the member an example needs.
\<close>

definition entry_data :: "32 word \<Rightarrow> 32 word \<Rightarrow> MMDB_entry_data_s" where
  "entry_data t n =
     \<lparr>utf8_string = [], double_value = 0, bytes = [], uint16 = 0, uint32 = 0, int32 = 0,
      uint64 = 0, uint128 = Uint128_bytes (replicate 16 0), boolean = False,
      float_value = 0, data_size = n, type = t\<rparr>"


text \<open>A database in which no address is found and whose metadata list is missing.\<close>

definition example_db :: MMDB_s where
  "example_db =
     \<lparr>MMDB_lookup_string = (\<lambda>ip_address.
        \<lparr>gai_error = 0, mmdb_error = 0, found_entry = False,
         get_entry_data_list_status = 0, get_entry_data_list = []\<rparr>),
      MMDB_get_metadata_as_entry_data_list = [],
      MMDB_strerror = (\<lambda>code. [])\<rparr>"

text \<open>
  What each call answers on a closed reader: the argument parser's exception when the
  arguments of \<^verbatim>\<open>get\<close> do not parse, and otherwise the \<^verbatim>\<open>IOError\<close> of the method.
\<close>

definition closed_reader_answer :: "call \<Rightarrow> error + PyObject" where
  "closed_reader_answer c =
     (case c of
        Get args \<Rightarrow>
          (case PyArg_ParseTuple_s args of
             None \<Rightarrow> Inl PyArg_ParseTuple_error
           | Some ip_address \<Rightarrow> Inl (IOError ''Attempt to read from a closed MaxMind DB.''))
      | Metadata \<Rightarrow> Inl (IOError ''Attempt to read from a closed MaxMind DB.'')
      | Close \<Rightarrow> Inl (IOError ''Attempt to close a closed MaxMind DB.''))"


section \<open>Well-formed subtrees\<close>

text \<open>
  A non-empty run of nodes \<open>seg\<close> is the serialisation of a well-formed subtree with
  value \<open>v\<close> when the decoder, started on its first node, returns \<open>v\<close> and leaves the
  cursor on its last node, whatever follows the run. \<open>map_pairs ks segs\<close> lays out the
  pairs of a map: each key node followed by the run of its value. \<open>key_of k\<close> is the
  run of octets the map loop reads from a key node.
\<close>

definition decodes :: "nat \<Rightarrow> entry_data_list \<Rightarrow> PyObject \<Rightarrow> bool" where
  "decodes LONG_BIT seg v \<longleftrightarrow>
     seg \<noteq> [] \<and>
     (\<forall>rest. from_entry_data_list LONG_BIT (seg @ rest) = Inr (v, last seg # rest))"

text \<open>
  The same for any function \<open>g\<close> on cursors, the loops of the decoder included:
  \<open>run_of g c v c'\<close> says that \<open>c\<close> starts with a run on which \<open>g\<close> returns \<open>v\<close> with
  the cursor \<open>c'\<close> on the last node of the run, whatever follows.
\<close>

definition run_of ::
  "(entry_data_list \<Rightarrow> error + (PyObject \<times> entry_data_list)) \<Rightarrow>
   entry_data_list \<Rightarrow> PyObject \<Rightarrow> entry_data_list \<Rightarrow> bool" where
  "run_of g c v c' \<longleftrightarrow>
     (\<exists>seg r. seg \<noteq> [] \<and> c = seg @ r \<and> c' = last seg # r \<and>
        (\<forall>r'. g (seg @ r') = Inr (v, last seg # r')))"

definition map_pairs :: "MMDB_entry_data_s list \<Rightarrow> entry_data_list list \<Rightarrow> entry_data_list" where
  "map_pairs ks segs = concat (map2 (#) ks segs)"

definition key_of :: "MMDB_entry_data_s \<Rightarrow> string" where
  "key_of k = take (unat (data_size k)) (utf8_string k)"

text \<open>
  A key node as the format has it: a string node whose octets decode. The map loop
  reads the string members of the key node without looking at its type, and does not
  test the key object it gets.
\<close>

definition string_key :: "MMDB_entry_data_s \<Rightarrow> bool" where
  "string_key k \<longleftrightarrow> type k = MMDB_DATA_TYPE_UTF8_STRING \<and> utf8_ok (key_of k)"

text \<open>The \<^verbatim>\<open>dict\<close> that results from \<^verbatim>\<open>PyDict_SetItem\<close> of each pair in turn.\<close>

definition dict_of_pairs :: "(string \<times> PyObject) list \<Rightarrow> (string \<times> PyObject) list" where
  "dict_of_pairs kvs = foldl (\<lambda>d (k, v). AList.update k v d) [] kvs"


section \<open>Big-endian values\<close>

text \<open>The unsigned number a run of octets denotes, most significant octet first.\<close>

definition big_endian :: "8 word list \<Rightarrow> nat" where
  "big_endian bs = foldl (\<lambda>a x. a * 256 + unat x) 0 bs"


section \<open>Termination of the decoder\<close>

text \<open>
  The loops call the decoder on the cursor an earlier call returned, so termination
  rests on a fact about results: a call never returns a longer list than it was given.
\<close>

lemma from_entry_data_list_length_partial:
  "from_entry_data_list_from_map_from_map_loop_from_array_from_array_loop_dom
     (Inl (Inl (LONG_BIT, c))) \<Longrightarrow>
   from_entry_data_list LONG_BIT c = Inr (v, c') \<Longrightarrow> length c' \<le> length c"
  "from_entry_data_list_from_map_from_map_loop_from_array_from_array_loop_dom
     (Inl (Inr (LONG_BIT, c))) \<Longrightarrow>
   from_map LONG_BIT c = Inr (v, c') \<Longrightarrow> length c' \<le> length c"
  "from_entry_data_list_from_map_from_map_loop_from_array_from_array_loop_dom
     (Inr (Inl (LONG_BIT, i, n, py_obj, c))) \<Longrightarrow>
   from_map_loop LONG_BIT i n py_obj c = Inr (v, c') \<Longrightarrow> length c' \<le> length c"
  "from_entry_data_list_from_map_from_map_loop_from_array_from_array_loop_dom
     (Inr (Inr (Inl (LONG_BIT, c)))) \<Longrightarrow>
   from_array LONG_BIT c = Inr (v, c') \<Longrightarrow> length c' \<le> length c"
  "from_entry_data_list_from_map_from_map_loop_from_array_from_array_loop_dom
     (Inr (Inr (Inr (LONG_BIT, i, n, py_obj, c)))) \<Longrightarrow>
   from_array_loop LONG_BIT i n py_obj c = Inr (v, c') \<Longrightarrow> length c' \<le> length c"
proof (induct arbitrary: v c' and v c' and v c' and v c' and v c'
    rule: from_entry_data_list_from_map_from_map_loop_from_array_from_array_loop.pinduct)
  case (1 LONG_BIT entry_data_list)
  from 1(4) show ?case
    unfolding from_entry_data_list.psimps [OF 1(1)]
    using 1(2,3)
    by (auto simp: Let_def split: list.splits if_splits sum.splits)
next
  case (2 LONG_BIT entry_data_list)
  from 2(3) show ?case
    unfolding from_map.psimps [OF 2(1)]
    using 2(2)
    by (auto split: list.splits)
next
  case (3 LONG_BIT i map_size py_obj entry_data_list)
  from 3(4) show ?case
    unfolding from_map_loop.psimps [OF 3(1)]
    using 3(2,3)
    by (fastforce simp: Let_def split: list.splits if_splits sum.splits prod.splits)
next
  case (4 LONG_BIT entry_data_list)
  from 4(3) show ?case
    unfolding from_array.psimps [OF 4(1)]
    using 4(2)
    by (auto split: list.splits)
next
  case (5 LONG_BIT i size' py_obj entry_data_list)
  from 5(4) show ?case
    unfolding from_array_loop.psimps [OF 5(1)]
    using 5(2,3)
    by (fastforce split: list.splits if_splits sum.splits prod.splits)
qed

termination from_entry_data_list
  by (relation "measure (\<lambda>x. case x of
          Inl (Inl (LONG_BIT, c)) \<Rightarrow> 3 * length c + 2
        | Inl (Inr (LONG_BIT, c)) \<Rightarrow> 3 * length c + 1
        | Inr (Inl (LONG_BIT, i, n, py_obj, c)) \<Rightarrow> 3 * length c
        | Inr (Inr (Inl (LONG_BIT, c))) \<Rightarrow> 3 * length c + 1
        | Inr (Inr (Inr (LONG_BIT, i, n, py_obj, c))) \<Rightarrow> 3 * length c)")
    (auto dest: from_entry_data_list_length_partial(1))

declare from_entry_data_list.simps [simp del] from_map.simps [simp del]
  from_map_loop.simps [simp del] from_array.simps [simp del] from_array_loop.simps [simp del]


section \<open>Dispatch on the node type\<close>

lemma from_entry_data_list_Cons:
  "from_entry_data_list LONG_BIT (e # es) =
     (if type e = MMDB_DATA_TYPE_MAP then from_map LONG_BIT (e # es)
      else if type e = MMDB_DATA_TYPE_ARRAY then from_array LONG_BIT (e # es)
      else if type e = MMDB_DATA_TYPE_UTF8_STRING then
        (if PyUnicode_FromStringAndSize (utf8_string e) (data_size e) = NULL
         then Inl UnicodeDecodeError
         else Inr (PyUnicode_FromStringAndSize (utf8_string e) (data_size e), e # es))
      else if type e = MMDB_DATA_TYPE_BYTES then
        Inr (PyByteArray_FromStringAndSize (bytes e) (data_size e), e # es)
      else if type e = MMDB_DATA_TYPE_DOUBLE then
        Inr (PyFloat_FromDouble (double_value e), e # es)
      else if type e = MMDB_DATA_TYPE_FLOAT then
        Inr (PyFloat_FromDouble (float_to_double (float_value e)), e # es)
      else if type e = MMDB_DATA_TYPE_UINT16 then
        Inr (PyLong_FromLong LONG_BIT (uint (uint16 e)), e # es)
      else if type e = MMDB_DATA_TYPE_UINT32 then
        Inr (PyLong_FromLong LONG_BIT (uint (uint32 e)), e # es)
      else if type e = MMDB_DATA_TYPE_BOOLEAN then
        Inr (PyBool_FromLong (if boolean e then 1 else 0), e # es)
      else if type e = MMDB_DATA_TYPE_UINT64 then
        Inr (PyLong_FromUnsignedLongLong (uint64 e), e # es)
      else if type e = MMDB_DATA_TYPE_UINT128 then
        (case from_uint128 (e # es) of
           Inl err \<Rightarrow> Inl err
         | Inr py_obj \<Rightarrow> Inr (py_obj, e # es))
      else if type e = MMDB_DATA_TYPE_INT32 then
        Inr (PyLong_FromLong LONG_BIT (sint (int32 e)), e # es)
      else Inl (Invalid_data_type (type e)))"
  by (simp add: from_entry_data_list.simps Let_def)

lemma from_entry_data_list_Nil: "from_entry_data_list LONG_BIT [] = Inl NULL_dereference"
  by (simp add: from_entry_data_list.simps)

text \<open>
  C8. A node whose type tag is none of the twelve the \<^verbatim>\<open>switch\<close> handles makes the
  decoder fail with \<^verbatim>\<open>MaxMindDB_error\<close>, the message naming the tag; no object is
  returned.
\<close>

theorem unsupported_node_kind:
  assumes "type e \<notin> {MMDB_DATA_TYPE_MAP, MMDB_DATA_TYPE_ARRAY, MMDB_DATA_TYPE_UTF8_STRING,
      MMDB_DATA_TYPE_BYTES, MMDB_DATA_TYPE_DOUBLE, MMDB_DATA_TYPE_FLOAT,
      MMDB_DATA_TYPE_UINT16, MMDB_DATA_TYPE_UINT32, MMDB_DATA_TYPE_UINT64,
      MMDB_DATA_TYPE_UINT128, MMDB_DATA_TYPE_INT32, MMDB_DATA_TYPE_BOOLEAN}"
  shows "from_entry_data_list LONG_BIT (e # es) = Inl (Invalid_data_type (type e))"
  using assms by (simp add: from_entry_data_list_Cons)

theorem unsupported_node_kind_witness:
  "from_entry_data_list 64 [entry_data 13 0] = Inl (Invalid_data_type 13)"
  using unsupported_node_kind [of "entry_data 13 0" 64 "[]"]
  by (simp add: entry_data_def MMDB_DATA_TYPE_defs)

text \<open>
  C9. A map or array node of size 0 decodes to the empty \<^verbatim>\<open>dict\<close> or the empty
  \<^verbatim>\<open>list\<close>, and the cursor stays on the container node: no later node is read.
\<close>

theorem empty_container:
  assumes "data_size e = 0"
  shows "(type e = MMDB_DATA_TYPE_MAP \<longrightarrow>
            from_entry_data_list LONG_BIT (e # es) = Inr (PyDict [], e # es)) \<and>
         (type e = MMDB_DATA_TYPE_ARRAY \<longrightarrow>
            from_entry_data_list LONG_BIT (e # es) = Inr (PyList [], e # es))"
  using assms
  by (simp add: from_entry_data_list_Cons from_map.simps from_array.simps
      from_map_loop.simps from_array_loop.simps PyDict_New_def PyList_New_def
      MMDB_DATA_TYPE_defs)

theorem empty_container_witness:
  "from_entry_data_list 64 [entry_data MMDB_DATA_TYPE_MAP 0, entry_data MMDB_DATA_TYPE_UINT16 0]
     = Inr (PyDict [], [entry_data MMDB_DATA_TYPE_MAP 0, entry_data MMDB_DATA_TYPE_UINT16 0]) \<and>
   from_entry_data_list 64 [entry_data MMDB_DATA_TYPE_ARRAY 0, entry_data MMDB_DATA_TYPE_UINT16 0]
     = Inr (PyList [], [entry_data MMDB_DATA_TYPE_ARRAY 0, entry_data MMDB_DATA_TYPE_UINT16 0])"
  using empty_container [of "entry_data MMDB_DATA_TYPE_MAP 0" 64 "[entry_data MMDB_DATA_TYPE_UINT16 0]"]
    empty_container [of "entry_data MMDB_DATA_TYPE_ARRAY 0" 64 "[entry_data MMDB_DATA_TYPE_UINT16 0]"]
  by (simp add: entry_data_def)


section \<open>Scalar nodes\<close>

lemma float_to_double_one_and_a_half: "float_to_double 0x3FC00000 = 0x3FF8000000000000"
  by (simp add: float_to_double_def Let_def)

text \<open>
  C2, as the code has it. A float node and a double node both decode to Python's one
  \<^verbatim>\<open>float\<close> type, which holds a C \<^verbatim>\<open>double\<close>: the double is copied and the float is
  widened to \<^verbatim>\<open>double\<close> on the way into \<^verbatim>\<open>PyFloat_FromDouble\<close>.
\<close>

theorem float_and_double_same_type:
  "(type e = MMDB_DATA_TYPE_FLOAT \<longrightarrow>
      from_entry_data_list LONG_BIT (e # es) =
        Inr (PyFloat (float_to_double (float_value e)), e # es)) \<and>
   (type e = MMDB_DATA_TYPE_DOUBLE \<longrightarrow>
      from_entry_data_list LONG_BIT (e # es) = Inr (PyFloat (double_value e), e # es))"
  by (simp add: from_entry_data_list_Cons PyFloat_FromDouble_def MMDB_DATA_TYPE_defs)

theorem float_and_double_same_type_witness:
  "from_entry_data_list 64 [(entry_data MMDB_DATA_TYPE_FLOAT 0)\<lparr>float_value := 0x3FC00000\<rparr>] =
     Inr (PyFloat 0x3FF8000000000000,
          [(entry_data MMDB_DATA_TYPE_FLOAT 0)\<lparr>float_value := 0x3FC00000\<rparr>]) \<and>
   from_entry_data_list 64
       [(entry_data MMDB_DATA_TYPE_DOUBLE 0)\<lparr>double_value := 0x4004000000000000\<rparr>] =
     Inr (PyFloat 0x4004000000000000,
          [(entry_data MMDB_DATA_TYPE_DOUBLE 0)\<lparr>double_value := 0x4004000000000000\<rparr>])"
  using float_and_double_same_type
      [of "(entry_data MMDB_DATA_TYPE_FLOAT 0)\<lparr>float_value := 0x3FC00000\<rparr>" 64 "[]"]
    float_and_double_same_type
      [of "(entry_data MMDB_DATA_TYPE_DOUBLE 0)\<lparr>double_value := 0x4004000000000000\<rparr>" 64 "[]"]
  by (simp add: entry_data_def float_to_double_one_and_a_half)

text \<open>
  C2 as stated fails: the float node carrying 1.5 (\<open>0x3FC00000\<close>) and the double node
  carrying 1.5 (\<open>0x3FF8000000000000\<close>) decode to the same object, so the output does
  not tell them apart.
\<close>

theorem float_double_counterexample:
  "from_entry_data_list 64 [(entry_data MMDB_DATA_TYPE_FLOAT 0)\<lparr>float_value := 0x3FC00000\<rparr>] =
     Inr (PyFloat 0x3FF8000000000000,
          [(entry_data MMDB_DATA_TYPE_FLOAT 0)\<lparr>float_value := 0x3FC00000\<rparr>]) \<and>
   from_entry_data_list 64
       [(entry_data MMDB_DATA_TYPE_DOUBLE 0)\<lparr>double_value := 0x3FF8000000000000\<rparr>] =
     Inr (PyFloat 0x3FF8000000000000,
          [(entry_data MMDB_DATA_TYPE_DOUBLE 0)\<lparr>double_value := 0x3FF8000000000000\<rparr>])"
  by (simp add: from_entry_data_list_Cons PyFloat_FromDouble_def MMDB_DATA_TYPE_defs
      entry_data_def float_to_double_one_and_a_half)

lemma PyLong_FromLong_exact:
  assumes "0 \<le> v" "v < 2 ^ k" "k < LONG_BIT"
  shows "PyLong_FromLong LONG_BIT v = PyLong v"
proof -
  have le: "(2::int) ^ k \<le> 2 ^ (LONG_BIT - 1)"
    by (rule power_increasing) (use assms(3) in simp_all)
  have pos: "(0::int) \<le> 2 ^ (LONG_BIT - 1)"
    by simp
  have "v < 2 ^ (LONG_BIT - 1)"
    using assms(2) le by linarith
  moreover have "- (2 ^ (LONG_BIT - 1)) \<le> v"
    using assms(1) pos by linarith
  ultimately show ?thesis
    unfolding PyLong_FromLong_def by (simp only: signed_take_bit_int_eq_self)
qed

text \<open>
  Where \<^verbatim>\<open>long\<close> is wider than 32 bits the conversion loses nothing: a uint16 and a
  uint32 payload come back as the integer of the same value. For uint16 that holds on
  every platform.
\<close>

lemma uint16_uint32_exact_on_wide_long:
  "(32 \<le> LONG_BIT \<and> type e = MMDB_DATA_TYPE_UINT16 \<longrightarrow>
      from_entry_data_list LONG_BIT (e # es) = Inr (PyLong (uint (uint16 e)), e # es)) \<and>
   (32 < LONG_BIT \<and> type e = MMDB_DATA_TYPE_UINT32 \<longrightarrow>
      from_entry_data_list LONG_BIT (e # es) = Inr (PyLong (uint (uint32 e)), e # es))"
proof -
  have "uint (uint16 e) < 2 ^ 16"
    using uint_bounded [of "uint16 e"] by simp
  then have a: "32 \<le> LONG_BIT \<Longrightarrow>
      PyLong_FromLong LONG_BIT (uint (uint16 e)) = PyLong (uint (uint16 e))"
    by (intro PyLong_FromLong_exact [where k = 16]) simp_all
  have "uint (uint32 e) < 2 ^ 32"
    using uint_bounded [of "uint32 e"] by simp
  then have b: "32 < LONG_BIT \<Longrightarrow>
      PyLong_FromLong LONG_BIT (uint (uint32 e)) = PyLong (uint (uint32 e))"
    by (intro PyLong_FromLong_exact [where k = 32]) simp_all
  show ?thesis
    using a b by (simp add: from_entry_data_list_Cons MMDB_DATA_TYPE_defs)
qed

lemma uint16_uint32_on_64_bit_long:
  "from_entry_data_list 64 [(entry_data MMDB_DATA_TYPE_UINT16 0)\<lparr>uint16 := 0xFFFF\<rparr>] =
     Inr (PyLong 65535, [(entry_data MMDB_DATA_TYPE_UINT16 0)\<lparr>uint16 := 0xFFFF\<rparr>]) \<and>
   from_entry_data_list 64 [(entry_data MMDB_DATA_TYPE_UINT32 0)\<lparr>uint32 := 0xFFFFFFFF\<rparr>] =
     Inr (PyLong 4294967295, [(entry_data MMDB_DATA_TYPE_UINT32 0)\<lparr>uint32 := 0xFFFFFFFF\<rparr>])"
  using uint16_uint32_exact_on_wide_long
      [of 64 "(entry_data MMDB_DATA_TYPE_UINT16 0)\<lparr>uint16 := 0xFFFF\<rparr>" "[]"]
    uint16_uint32_exact_on_wide_long
      [of 64 "(entry_data MMDB_DATA_TYPE_UINT32 0)\<lparr>uint32 := 0xFFFFFFFF\<rparr>" "[]"]
  by (simp add: entry_data_def MMDB_DATA_TYPE_defs)

text \<open>
  C4. Where \<^verbatim>\<open>long\<close> has 32 bits (ILP32, LLP64) the uint32 payload \<open>2 ^ 31\<close> is passed
  to \<^verbatim>\<open>PyLong_FromLong\<close> and comes back as \<open>- 2 ^ 31\<close>: the unsigned value is lost. On
  the same build a uint64 node with that payload, which goes through
  \<^verbatim>\<open>PyLong_FromUnsignedLongLong\<close>, comes back as \<open>2 ^ 31\<close>.
\<close>

theorem uint32_wraps_on_32_bit_long:
  "from_entry_data_list 32 [(entry_data MMDB_DATA_TYPE_UINT32 0)\<lparr>uint32 := 0x80000000\<rparr>] =
     Inr (PyLong (- 2147483648),
          [(entry_data MMDB_DATA_TYPE_UINT32 0)\<lparr>uint32 := 0x80000000\<rparr>]) \<and>
   from_entry_data_list 32 [(entry_data MMDB_DATA_TYPE_UINT64 0)\<lparr>uint64 := 0x80000000\<rparr>] =
     Inr (PyLong 2147483648,
          [(entry_data MMDB_DATA_TYPE_UINT64 0)\<lparr>uint64 := 0x80000000\<rparr>])"
  by (simp add: from_entry_data_list_Cons PyLong_FromLong_def PyLong_FromUnsignedLongLong_def
      MMDB_DATA_TYPE_defs entry_data_def signed_take_bit_eq_take_bit_minus)


section \<open>A closed reader\<close>

lemma Reader_call_closed:
  "mmdb self = None \<Longrightarrow> Reader_call LONG_BIT self c = (closed_reader_answer c, self)"
  by (cases c)
    (simp_all add: Reader_get_def Reader_metadata_def Reader_close_def closed_reader_answer_def
      split: option.splits)

lemma Reader_calls_closed:
  "mmdb self = None \<Longrightarrow>
   Reader_calls LONG_BIT self cs = (map closed_reader_answer cs, self)"
  by (induction cs) (simp_all add: Reader_call_closed)

text \<open>
  C10, as the code has it. After a successful \<^verbatim>\<open>close\<close> the handle is \<^verbatim>\<open>NULL\<close>, and
  any sequence of later calls leaves the reader as it is: \<^verbatim>\<open>metadata\<close>, \<^verbatim>\<open>close\<close> and
  every \<^verbatim>\<open>get\<close> whose arguments parse raise the \<^verbatim>\<open>IOError\<close> of the method, and a
  \<^verbatim>\<open>get\<close> whose arguments do not parse raises the argument parser's exception.
\<close>

theorem closed_reader_stays_closed:
  assumes "Reader_close self = (Inr PyNone, self')"
  shows "mmdb self' = None \<and>
         Reader_calls LONG_BIT self' cs = (map closed_reader_answer cs, self')"
proof -
  from assms have "mmdb self' = None"
    by (auto simp: Reader_close_def split: option.splits)
  then show ?thesis
    by (simp add: Reader_calls_closed)
qed

theorem closed_reader_stays_closed_witness:
  "Reader_close \<lparr>mmdb = Some example_db\<rparr> = (Inr PyNone, \<lparr>mmdb = None\<rparr>) \<and>
   Reader_calls 64 \<lparr>mmdb = None\<rparr> [Get [PyUnicode ''1.2.3.4''], Metadata, Close, Get []] =
     ([Inl (IOError ''Attempt to read from a closed MaxMind DB.''),
       Inl (IOError ''Attempt to read from a closed MaxMind DB.''),
       Inl (IOError ''Attempt to close a closed MaxMind DB.''),
       Inl PyArg_ParseTuple_error], \<lparr>mmdb = None\<rparr>)"
proof -
  have c: "Reader_close \<lparr>mmdb = Some example_db\<rparr> = (Inr PyNone, \<lparr>mmdb = None\<rparr>)"
    by (simp add: Reader_close_def)
  show ?thesis
    using c closed_reader_stays_closed [OF c, of 64
        "[Get [PyUnicode ''1.2.3.4''], Metadata, Close, Get []]"]
    by (simp add: closed_reader_answer_def)
qed

text \<open>
  C10 as stated fails for \<^verbatim>\<open>get\<close> called without arguments on a closed reader:
  \<^verbatim>\<open>PyArg_ParseTuple\<close> runs before the handle is examined, so the call fails with the
  parser's exception and not with \<^verbatim>\<open>IOError\<close>.
\<close>

theorem closed_reader_get_counterexample:
  "Reader_get 64 (snd (Reader_close \<lparr>mmdb = Some example_db\<rparr>)) [] =
     (Inl PyArg_ParseTuple_error, \<lparr>mmdb = None\<rparr>)"
  by (simp add: Reader_get_def Reader_close_def)


section \<open>A successful call consumes one run\<close>

lemma run_of_single:
  assumes "\<And>r'. g (x # r') = Inr (v, x # r')"
  shows "run_of g (x # xs) v (x # xs)"
  unfolding run_of_def
  by (rule exI [of _ "[x]"], rule exI [of _ xs]) (simp add: assms)

lemma run_of_wrap:
  assumes "run_of g c v c'"
    and "\<And>d. d \<noteq> [] \<Longrightarrow> hd d = hd c \<Longrightarrow> h d = g d"
  shows "run_of h c v c'"
proof -
  from assms(1) obtain seg r where s: "seg \<noteq> []" "c = seg @ r" "c' = last seg # r"
    and u: "\<And>r'. g (seg @ r') = Inr (v, last seg # r')"
    unfolding run_of_def by blast
  have "h (seg @ r') = Inr (v, last seg # r')" for r'
    using assms(2) [of "seg @ r'"] s(1,2) u [of r'] by simp
  with s show ?thesis
    unfolding run_of_def by blast
qed

lemma run_of_step:
  assumes g1: "run_of g1 c1 v1 c2"
    and g2: "run_of g2 c2 v c'"
    and h: "\<And>d d2. g1 d = Inr (v1, d2) \<Longrightarrow> h (pre @ d) = g2 d2"
  shows "run_of h (pre @ c1) v c'"
proof -
  from g1 obtain s1 r1 where s1: "s1 \<noteq> []" "c1 = s1 @ r1" "c2 = last s1 # r1"
    and u1: "\<And>r'. g1 (s1 @ r') = Inr (v1, last s1 # r')"
    unfolding run_of_def by blast
  from g2 obtain s2 r2 where s2: "s2 \<noteq> []" "c2 = s2 @ r2" "c' = last s2 # r2"
    and u2: "\<And>r'. g2 (s2 @ r') = Inr (v, last s2 # r')"
    unfolding run_of_def by blast
  from s1(3) s2(1,2) obtain t where t: "s2 = last s1 # t" "r1 = t @ r2"
    by (cases s2) simp_all
  let ?seg = "pre @ s1 @ t"
  have l: "last ?seg = last s2"
    using s1(1) t(1) by (cases t) simp_all
  have "h (?seg @ r') = Inr (v, last ?seg # r')" for r'
  proof -
    have "h (pre @ (s1 @ t @ r')) = g2 (last s1 # t @ r')"
      by (rule h) (rule u1)
    also have "\<dots> = Inr (v, last s2 # r')"
      using u2 [of r'] by (simp add: t(1))
    finally show ?thesis
      by (simp add: l)
  qed
  moreover have "?seg \<noteq> []" "pre @ c1 = ?seg @ r2" "c' = last ?seg # r2"
    using s1 s2 t l by simp_all
  ultimately show ?thesis
    unfolding run_of_def by blast
qed

lemma from_uint128_head: "from_uint128 (e # es) = from_uint128 (e # es')"
  by (simp add: from_uint128_def)

lemma scalar_node_alone:
  assumes "type e \<noteq> MMDB_DATA_TYPE_MAP" "type e \<noteq> MMDB_DATA_TYPE_ARRAY"
  shows "from_entry_data_list LONG_BIT (e # es) =
           (case from_entry_data_list LONG_BIT [e] of
              Inl err \<Rightarrow> Inl err
            | Inr (v, c) \<Rightarrow> Inr (v, e # es))"
  using assms
  by (simp add: from_entry_data_list_Cons from_uint128_def split: sum.splits)

lemma decoder_runs:
  "c \<noteq> [] \<Longrightarrow> from_entry_data_list LONG_BIT c = Inr (v, c') \<Longrightarrow>
     run_of (from_entry_data_list LONG_BIT) c v c'"
  "c \<noteq> [] \<Longrightarrow> from_map LONG_BIT c = Inr (v, c') \<Longrightarrow>
     run_of (from_map LONG_BIT) c v c'"
  "c \<noteq> [] \<Longrightarrow> from_map_loop LONG_BIT i n py_obj c = Inr (v, c') \<Longrightarrow>
     run_of (from_map_loop LONG_BIT i n py_obj) c v c'"
  "c \<noteq> [] \<Longrightarrow> from_array LONG_BIT c = Inr (v, c') \<Longrightarrow>
     run_of (from_array LONG_BIT) c v c'"
  "c \<noteq> [] \<Longrightarrow> from_array_loop LONG_BIT i n py_obj c = Inr (v, c') \<Longrightarrow>
     run_of (from_array_loop LONG_BIT i n py_obj) c v c'"
proof (induct LONG_BIT c and LONG_BIT c and LONG_BIT i n py_obj c and LONG_BIT c
    and LONG_BIT i n py_obj c arbitrary: v c' and v c' and v c' and v c' and v c'
    rule: from_entry_data_list_from_map_from_map_loop_from_array_from_array_loop.induct)
  case (1 LONG_BIT c)
  from "1.prems"(1) obtain e es where c: "c = e # es"
    by (cases c) simp_all
  show ?case
  proof (cases "type e = MMDB_DATA_TYPE_MAP")
    case True
    with "1.prems" c have "from_map LONG_BIT c = Inr (v, c')"
      by (simp add: from_entry_data_list_Cons)
    with "1.hyps"(1) [OF c True "1.prems"(1)] have "run_of (from_map LONG_BIT) c v c'" .
    then show ?thesis
    proof (rule run_of_wrap)
      fix d :: entry_data_list
      assume "d \<noteq> []" "hd d = hd c"
      then obtain ds where "d = e # ds"
        using c by (cases d) simp_all
      then show "from_entry_data_list LONG_BIT d = from_map LONG_BIT d"
        using True by (simp add: from_entry_data_list_Cons)
    qed
  next
    case notmap: False
    show ?thesis
    proof (cases "type e = MMDB_DATA_TYPE_ARRAY")
      case True
      with "1.prems" c notmap have "from_array LONG_BIT c = Inr (v, c')"
        by (simp add: from_entry_data_list_Cons)
      with "1.hyps"(2) [OF c notmap True "1.prems"(1)]
      have "run_of (from_array LONG_BIT) c v c'" .
      then show ?thesis
      proof (rule run_of_wrap)
        fix d :: entry_data_list
        assume "d \<noteq> []" "hd d = hd c"
        then obtain ds where "d = e # ds"
          using c by (cases d) simp_all
        then show "from_entry_data_list LONG_BIT d = from_array LONG_BIT d"
          using True notmap by (simp add: from_entry_data_list_Cons)
      qed
    next
      case False
      note alone = scalar_node_alone [OF notmap False, of LONG_BIT]
      from "1.prems"(2) obtain c0 where c': "c' = e # es"
        and e: "from_entry_data_list LONG_BIT [e] = Inr (v, c0)"
        unfolding c alone [of es] by (auto split: sum.splits)
      have u: "from_entry_data_list LONG_BIT (e # r') = Inr (v, e # r')" for r'
        unfolding alone [of r'] by (simp add: e)
      show ?thesis
        unfolding c c' by (rule run_of_single) (rule u)
    qed
  qed
next
  case (2 LONG_BIT c)
  from "2.prems"(1) obtain e es where c: "c = e # es"
    by (cases c) simp_all
  with "2.prems" have
    "from_map_loop LONG_BIT 0 (unat (data_size e)) PyDict_New c = Inr (v, c')"
    by (simp add: from_map.simps)
  with "2.hyps" [OF c "2.prems"(1)]
  have "run_of (from_map_loop LONG_BIT 0 (unat (data_size e)) PyDict_New) c v c'" .
  then show ?case
  proof (rule run_of_wrap)
    fix d :: entry_data_list
    assume "d \<noteq> []" "hd d = hd c"
    then obtain ds where "d = e # ds"
      using c by (cases d) simp_all
    then show "from_map LONG_BIT d =
        from_map_loop LONG_BIT 0 (unat (data_size e)) PyDict_New d"
      by (simp add: from_map.simps)
  qed
next
  case (3 LONG_BIT i map_size py_obj c)
  from "3.prems"(1) obtain x xs where c: "c = x # xs"
    by (cases c) simp_all
  show ?case
  proof (cases "i < map_size")
    case False
    with "3.prems"(2) have v: "v = py_obj" "c' = x # xs"
      by (simp_all add: from_map_loop.simps c)
    have u: "from_map_loop LONG_BIT i map_size py_obj (x # r') = Inr (py_obj, x # r')" for r'
      using False by (simp add: from_map_loop.simps)
    show ?thesis
      unfolding c v by (rule run_of_single) (rule u)
  next
    case True
    with "3.prems"(2) c obtain k c2 where xs: "xs = k # c2"
      by (cases xs) (simp_all add: from_map_loop.simps)
    let ?key = "PyUnicode_FromStringAndSize (utf8_string k) (data_size k)"
    have round: "from_map_loop LONG_BIT i map_size py_obj (x # k # c2) =
        (case from_entry_data_list LONG_BIT c2 of
           Inl err \<Rightarrow> if ?key = NULL then Inl NULL_dereference else Inl err
         | Inr (value, c3) \<Rightarrow>
             if ?key = NULL then Inl NULL_dereference
             else from_map_loop LONG_BIT (i + 1) map_size (PyDict_SetItem py_obj ?key value) c3)"
      using True by (subst from_map_loop.simps) (simp add: Let_def)
    from "3.prems"(2) obtain v1 c3 where
      f: "from_entry_data_list LONG_BIT c2 = Inr (v1, c3)"
      and key: "?key \<noteq> NULL"
      and l: "from_map_loop LONG_BIT (i + 1) map_size (PyDict_SetItem py_obj ?key v1) c3 =
               Inr (v, c')"
      unfolding c xs round by (auto split: sum.splits if_splits)
    from f have c2: "c2 \<noteq> []"
      by (auto simp: from_entry_data_list_Nil)
    have r1: "run_of (from_entry_data_list LONG_BIT) c2 v1 c3"
      using "3.hyps"(1) [OF True c xs refl c2 f] .
    then have c3: "c3 \<noteq> []"
      unfolding run_of_def by auto
    have r2: "run_of (from_map_loop LONG_BIT (i + 1) map_size (PyDict_SetItem py_obj ?key v1))
        c3 v c'"
      using "3.hyps"(2) [OF True c xs refl f refl key c3 l] .
    have "run_of (from_map_loop LONG_BIT i map_size py_obj) ([x, k] @ c2) v c'"
      using r1 r2
    proof (rule run_of_step)
      fix d d2
      assume "from_entry_data_list LONG_BIT d = Inr (v1, d2)"
      then show "from_map_loop LONG_BIT i map_size py_obj ([x, k] @ d) =
          from_map_loop LONG_BIT (i + 1) map_size (PyDict_SetItem py_obj ?key v1) d2"
        using True key by (subst from_map_loop.simps) simp
    qed
    then show ?thesis
      by (simp add: c xs)
  qed
next
  case (4 LONG_BIT c)
  from "4.prems"(1) obtain e es where c: "c = e # es"
    by (cases c) simp_all
  with "4.prems" have
    "from_array_loop LONG_BIT 0 (unat (data_size e)) (PyList_New (data_size e)) c =
       Inr (v, c')"
    by (simp add: from_array.simps)
  with "4.hyps" [OF c "4.prems"(1)]
  have "run_of (from_array_loop LONG_BIT 0 (unat (data_size e)) (PyList_New (data_size e)))
      c v c'" .
  then show ?case
  proof (rule run_of_wrap)
    fix d :: entry_data_list
    assume "d \<noteq> []" "hd d = hd c"
    then obtain ds where "d = e # ds"
      using c by (cases d) simp_all
    then show "from_array LONG_BIT d =
        from_array_loop LONG_BIT 0 (unat (data_size e)) (PyList_New (data_size e)) d"
      by (simp add: from_array.simps)
  qed
next
  case (5 LONG_BIT i size' py_obj c)
  from "5.prems"(1) obtain x c1 where c: "c = x # c1"
    by (cases c) simp_all
  show ?case
  proof (cases "i < size'")
    case False
    with "5.prems"(2) have v: "v = py_obj" "c' = x # c1"
      by (simp_all add: from_array_loop.simps c)
    have u: "from_array_loop LONG_BIT i size' py_obj (x # r') = Inr (py_obj, x # r')" for r'
      using False by (simp add: from_array_loop.simps)
    show ?thesis
      unfolding c v by (rule run_of_single) (rule u)
  next
    case True
    from True "5.prems"(2) c obtain v1 c2 where
      f: "from_entry_data_list LONG_BIT c1 = Inr (v1, c2)"
      and l: "from_array_loop LONG_BIT (i + 1) size' (PyList_SetItem py_obj i v1) c2 =
               Inr (v, c')"
      by (subst (asm) from_array_loop.simps) (auto split: sum.splits)
    from f have c1: "c1 \<noteq> []"
      by (auto simp: from_entry_data_list_Nil)
    have r1: "run_of (from_entry_data_list LONG_BIT) c1 v1 c2"
      using "5.hyps"(1) [OF True c c1 f] .
    then have c2: "c2 \<noteq> []"
      unfolding run_of_def by auto
    have r2: "run_of (from_array_loop LONG_BIT (i + 1) size' (PyList_SetItem py_obj i v1))
        c2 v c'"
      using "5.hyps"(2) [OF True c f refl c2 l] .
    have "run_of (from_array_loop LONG_BIT i size' py_obj) ([x] @ c1) v c'"
      using r1 r2
    proof (rule run_of_step)
      fix d d2
      assume "from_entry_data_list LONG_BIT d = Inr (v1, d2)"
      then show "from_array_loop LONG_BIT i size' py_obj ([x] @ d) =
          from_array_loop LONG_BIT (i + 1) size' (PyList_SetItem py_obj i v1) d2"
        using True by (subst from_array_loop.simps) simp
    qed
    then show ?thesis
      by (simp add: c)
  qed
qed

text \<open>
  Every call of the decoder that succeeds has decoded a well-formed run: the nodes it
  went through, up to the one the cursor is left on.
\<close>

lemma success_is_well_formed_run:
  assumes "from_entry_data_list LONG_BIT c = Inr (v, c')"
  shows "\<exists>seg rest. c = seg @ rest \<and> c' = last seg # rest \<and> decodes LONG_BIT seg v"
proof -
  from assms have "c \<noteq> []"
    by (auto simp: from_entry_data_list_Nil)
  then have "run_of (from_entry_data_list LONG_BIT) c v c'"
    using assms by (rule decoder_runs(1))
  then show ?thesis
    unfolding run_of_def decodes_def by blast
qed


section \<open>Arrays\<close>

lemma last_Cons_concat:
  "seg \<noteq> [] \<Longrightarrow> last (c0 # seg @ ys) = last (last seg # ys)"
  by (cases ys) simp_all

lemma from_array_loop_decodes:
  assumes "list_all2 (decodes LONG_BIT) segs vs"
  shows "i + length segs = n \<Longrightarrow> length xs = n \<Longrightarrow>
         from_array_loop LONG_BIT i n (PyList xs) (c0 # concat segs @ rest) =
           Inr (PyList (take i xs @ vs), last (c0 # concat segs) # rest)"
  using assms
proof (induction segs vs arbitrary: i xs c0 rule: list_all2_induct)
  case Nil
  then show ?case
    by (simp add: from_array_loop.simps)
next
  case (Cons seg segs v vs)
  from Cons.hyps(1) have seg: "seg \<noteq> []"
    and dec: "from_entry_data_list LONG_BIT (seg @ concat segs @ rest) =
               Inr (v, last seg # concat segs @ rest)"
    by (simp_all add: decodes_def)
  from Cons.prems have lt: "i < n" and len: "i < length xs"
    by simp_all
  have step: "from_array_loop LONG_BIT i n (PyList xs) (c0 # concat (seg # segs) @ rest) =
      from_array_loop LONG_BIT (i + 1) n (PyList (xs[i := v])) (last seg # concat segs @ rest)"
    using lt dec by (subst from_array_loop.simps) simp
  have "from_array_loop LONG_BIT (i + 1) n (PyList (xs[i := v])) (last seg # concat segs @ rest) =
      Inr (PyList (take (i + 1) (xs[i := v]) @ vs), last (last seg # concat segs) # rest)"
    using Cons.prems by (intro Cons.IH) simp_all
  moreover have "take (i + 1) (xs[i := v]) = take i xs @ [v]"
    using len by (simp add: take_Suc_conv_app_nth)
  moreover have "last (c0 # concat (seg # segs)) = last (last seg # concat segs)"
    using seg by (simp add: last_Cons_concat)
  ultimately show ?case
    using step by simp
qed

text \<open>
  C6. An array node of size \<open>N\<close> followed by the runs of \<open>N\<close> well-formed element
  subtrees decodes to the list of the \<open>N\<close> element values in the order of the runs,
  and leaves the cursor on the last node of the last run.
\<close>

theorem array_order_preserved:
  assumes "type a = MMDB_DATA_TYPE_ARRAY"
    and "unat (data_size a) = length segs"
    and "list_all2 (decodes LONG_BIT) segs vs"
  shows "from_entry_data_list LONG_BIT (a # concat segs @ rest) =
           Inr (PyList vs, last (a # concat segs) # rest)"
proof -
  have "from_entry_data_list LONG_BIT (a # concat segs @ rest) =
      from_array_loop LONG_BIT 0 (length segs) (PyList (replicate (length segs) NULL))
        (a # concat segs @ rest)"
    using assms(1,2)
    by (simp add: from_entry_data_list_Cons from_array.simps PyList_New_def MMDB_DATA_TYPE_defs)
  also have "\<dots> = Inr (PyList (take 0 (replicate (length segs) NULL) @ vs),
      last (a # concat segs) # rest)"
    using assms(3) by (intro from_array_loop_decodes) simp_all
  finally show ?thesis
    by simp
qed

lemma decodes_single:
  assumes "type e \<noteq> MMDB_DATA_TYPE_MAP" "type e \<noteq> MMDB_DATA_TYPE_ARRAY"
    and "from_entry_data_list LONG_BIT [e] = Inr (v, [e])"
  shows "decodes LONG_BIT [e] v"
proof -
  have "from_entry_data_list LONG_BIT (e # rest) = Inr (v, e # rest)" for rest
    by (subst scalar_node_alone [OF assms(1,2)]) (simp only: assms(3) sum.case prod.case)
  then show ?thesis
    by (simp add: decodes_def)
qed

theorem array_order_preserved_witness:
  "from_entry_data_list 64
     [entry_data MMDB_DATA_TYPE_ARRAY 3,
      (entry_data MMDB_DATA_TYPE_UTF8_STRING 1)\<lparr>utf8_string := ''A''\<rparr>,
      (entry_data MMDB_DATA_TYPE_UTF8_STRING 1)\<lparr>utf8_string := ''B''\<rparr>,
      (entry_data MMDB_DATA_TYPE_UTF8_STRING 1)\<lparr>utf8_string := ''C''\<rparr>] =
   Inr (PyList [PyUnicode ''A'', PyUnicode ''B'', PyUnicode ''C''],
        [(entry_data MMDB_DATA_TYPE_UTF8_STRING 1)\<lparr>utf8_string := ''C''\<rparr>])"
proof -
  let ?s = "\<lambda>x. (entry_data MMDB_DATA_TYPE_UTF8_STRING 1)\<lparr>utf8_string := x\<rparr>"
  have d: "decodes 64 [?s x] (PyUnicode (take 1 x))" if "utf8_ok (take 1 x)" for x
    by (rule decodes_single)
      (use that in \<open>simp_all add: from_entry_data_list_Cons entry_data_def MMDB_DATA_TYPE_defs
        PyUnicode_FromStringAndSize_def\<close>)
  have "list_all2 (decodes 64) [[?s ''A''], [?s ''B''], [?s ''C'']]
      [PyUnicode ''A'', PyUnicode ''B'', PyUnicode ''C'']"
    using d [of "''A''"] d [of "''B''"] d [of "''C''"] by (simp add: octet_in_def)
  from array_order_preserved [of "entry_data MMDB_DATA_TYPE_ARRAY 3"
      "[[?s ''A''], [?s ''B''], [?s ''C'']]" 64 _ "[]", OF _ _ this]
  show ?thesis
    by (simp add: entry_data_def)
qed


section \<open>Maps\<close>

lemma map_pairs_Cons [simp]:
  "map_pairs (k # ks) (seg # segs) = k # seg @ map_pairs ks segs"
  by (simp add: map_pairs_def)

lemma map_pairs_Nil [simp]: "map_pairs [] [] = []"
  by (simp add: map_pairs_def)

lemma string_key_object:
  "string_key k \<Longrightarrow>
   PyUnicode_FromStringAndSize (utf8_string k) (data_size k) = PyUnicode (key_of k)"
  by (simp add: string_key_def key_of_def PyUnicode_FromStringAndSize_def)

lemma from_map_loop_decodes:
  assumes "list_all2 (decodes LONG_BIT) segs vs"
  shows "length ks = length segs \<Longrightarrow> list_all string_key ks \<Longrightarrow> i + length segs = n \<Longrightarrow>
         from_map_loop LONG_BIT i n (PyDict d) (c0 # map_pairs ks segs @ rest) =
           Inr (PyDict (foldl (\<lambda>d (k, v). AList.update k v d) d (zip (map key_of ks) vs)),
                last (c0 # map_pairs ks segs) # rest)"
  using assms
proof (induction segs vs arbitrary: ks i d c0 rule: list_all2_induct)
  case Nil
  then show ?case
    by (simp add: from_map_loop.simps)
next
  case (Cons seg segs v vs)
  from Cons.prems(1) obtain k ks' where ks: "ks = k # ks'" and len: "length ks' = length segs"
    by (cases ks) simp_all
  from Cons.hyps(1) have seg: "seg \<noteq> []"
    and dec: "from_entry_data_list LONG_BIT (seg @ map_pairs ks' segs @ rest) =
               Inr (v, last seg # map_pairs ks' segs @ rest)"
    by (simp_all add: decodes_def)
  from Cons.prems have lt: "i < n"
    by simp
  from Cons.prems(2) have key: "string_key k" and keys: "list_all string_key ks'"
    by (simp_all add: ks)
  have step: "from_map_loop LONG_BIT i n (PyDict d) (c0 # map_pairs ks (seg # segs) @ rest) =
      from_map_loop LONG_BIT (i + 1) n (PyDict (AList.update (key_of k) v d))
        (last seg # map_pairs ks' segs @ rest)"
    using lt dec
    by (subst from_map_loop.simps) (simp add: ks string_key_object [OF key])
  have "from_map_loop LONG_BIT (i + 1) n (PyDict (AList.update (key_of k) v d))
        (last seg # map_pairs ks' segs @ rest) =
      Inr (PyDict (foldl (\<lambda>d (k, v). AList.update k v d) (AList.update (key_of k) v d)
              (zip (map key_of ks') vs)),
           last (last seg # map_pairs ks' segs) # rest)"
    using Cons.prems len keys by (intro Cons.IH) simp_all
  moreover have "last (c0 # map_pairs ks (seg # segs)) = last (last seg # map_pairs ks' segs)"
    using seg last_Cons_concat [of seg k "map_pairs ks' segs"] by (simp add: ks)
  ultimately show ?case
    using step by (simp add: ks)
qed

lemma distinct_foldl_update:
  "distinct (map fst d) \<Longrightarrow>
   distinct (map fst (foldl (\<lambda>d (k, v). AList.update k v d) d kvs))"
  by (induction kvs arbitrary: d) (simp_all add: distinct_update split: prod.splits)

lemma map_of_foldl_update:
  "map_of (foldl (\<lambda>d (k, v). AList.update k v d) d kvs) = map_of d ++ map_of (rev kvs)"
proof (induction kvs arbitrary: d)
  case Nil
  show ?case by simp
next
  case (Cons kv kvs)
  obtain k v where kv: "kv = (k, v)" by (cases kv)
  have "map_of d ++ map_of (rev (kv # kvs)) = map_of (AList.update k v d) ++ map_of (rev kvs)"
    by (simp add: kv update_conv' map_add_assoc [symmetric])
  then show ?case
    by (simp add: Cons.IH kv)
qed

lemma map_of_rev_last:
  "j < length xs \<Longrightarrow>
   (\<forall>j'. j < j' \<and> j' < length xs \<longrightarrow> fst (xs ! j') \<noteq> fst (xs ! j)) \<Longrightarrow>
   map_of (rev xs) (fst (xs ! j)) = Some (snd (xs ! j))"
proof (induction xs rule: rev_induct)
  case Nil
  then show ?case by simp
next
  case (snoc x xs)
  show ?case
  proof (cases "j = length xs")
    case True
    then show ?thesis by simp
  next
    case False
    with snoc.prems(1) have j: "j < length xs" by simp
    from snoc.prems(2) j have "fst ((xs @ [x]) ! length xs) \<noteq> fst ((xs @ [x]) ! j)"
      by (metis length_append_singleton lessI)
    with j have ne: "fst x \<noteq> fst (xs ! j)"
      by (simp add: nth_append)
    have "\<forall>j'. j < j' \<and> j' < length xs \<longrightarrow> fst (xs ! j') \<noteq> fst (xs ! j)"
    proof (intro allI impI)
      fix j' assume a: "j < j' \<and> j' < length xs"
      with snoc.prems(2) have "fst ((xs @ [x]) ! j') \<noteq> fst ((xs @ [x]) ! j)"
        by simp
      with a j show "fst (xs ! j') \<noteq> fst (xs ! j)"
        by (simp add: nth_append)
    qed
    with snoc.IH j have "map_of (rev xs) (fst (xs ! j)) = Some (snd (xs ! j))"
      by simp
    with ne j show ?thesis
      by (simp add: nth_append)
  qed
qed

text \<open>
  C7. A map node followed by its pairs, the keys string nodes whose octets decode and
  the values well-formed subtrees, decodes without error to the \<^verbatim>\<open>dict\<close> built by
  setting each pair in turn: every key occurs once in it, and a key is bound to the
  value of its last occurrence among the pairs.
\<close>

theorem map_last_key_wins:
  assumes "type m = MMDB_DATA_TYPE_MAP"
    and "unat (data_size m) = length segs"
    and "length ks = length segs"
    and "list_all string_key ks"
    and "list_all2 (decodes LONG_BIT) segs vs"
    and "pairs = zip (map key_of ks) vs"
  shows "from_entry_data_list LONG_BIT (m # map_pairs ks segs @ rest) =
           Inr (PyDict (dict_of_pairs pairs), last (m # map_pairs ks segs) # rest) \<and>
         distinct (map fst (dict_of_pairs pairs)) \<and>
         (\<forall>j<length pairs.
            (\<forall>j'. j < j' \<and> j' < length pairs \<longrightarrow> fst (pairs ! j') \<noteq> fst (pairs ! j)) \<longrightarrow>
            map_of (dict_of_pairs pairs) (fst (pairs ! j)) = Some (snd (pairs ! j)))"
proof (intro conjI allI impI)
  have "from_entry_data_list LONG_BIT (m # map_pairs ks segs @ rest) =
      from_map_loop LONG_BIT 0 (length segs) (PyDict []) (m # map_pairs ks segs @ rest)"
    using assms(1,2)
    by (simp add: from_entry_data_list_Cons from_map.simps PyDict_New_def MMDB_DATA_TYPE_defs)
  also have "\<dots> = Inr (PyDict (foldl (\<lambda>d (k, v). AList.update k v d) []
        (zip (map key_of ks) vs)), last (m # map_pairs ks segs) # rest)"
    using assms(3,4,5) by (intro from_map_loop_decodes) simp_all
  finally show "from_entry_data_list LONG_BIT (m # map_pairs ks segs @ rest) =
      Inr (PyDict (dict_of_pairs pairs), last (m # map_pairs ks segs) # rest)"
    by (simp add: dict_of_pairs_def assms(6))
next
  show "distinct (map fst (dict_of_pairs pairs))"
    unfolding dict_of_pairs_def by (rule distinct_foldl_update) simp
next
  fix j
  assume "j < length pairs"
    and "\<forall>j'. j < j' \<and> j' < length pairs \<longrightarrow> fst (pairs ! j') \<noteq> fst (pairs ! j)"
  then have "map_of (rev pairs) (fst (pairs ! j)) = Some (snd (pairs ! j))"
    by (rule map_of_rev_last)
  then show "map_of (dict_of_pairs pairs) (fst (pairs ! j)) = Some (snd (pairs ! j))"
    by (simp add: dict_of_pairs_def map_of_foldl_update)
qed

theorem map_last_key_wins_witness:
  "from_entry_data_list 64
     [entry_data MMDB_DATA_TYPE_MAP 2,
      (entry_data MMDB_DATA_TYPE_UTF8_STRING 1)\<lparr>utf8_string := ''k''\<rparr>,
      (entry_data MMDB_DATA_TYPE_UINT16 0)\<lparr>uint16 := 1\<rparr>,
      (entry_data MMDB_DATA_TYPE_UTF8_STRING 1)\<lparr>utf8_string := ''k''\<rparr>,
      (entry_data MMDB_DATA_TYPE_UINT16 0)\<lparr>uint16 := 2\<rparr>] =
   Inr (PyDict [(''k'', PyLong 2)], [(entry_data MMDB_DATA_TYPE_UINT16 0)\<lparr>uint16 := 2\<rparr>])"
proof -
  let ?k = "(entry_data MMDB_DATA_TYPE_UTF8_STRING 1)\<lparr>utf8_string := ''k''\<rparr>"
  let ?u = "\<lambda>x. (entry_data MMDB_DATA_TYPE_UINT16 0)\<lparr>uint16 := x\<rparr>"
  have d: "decodes 64 [?u x] (PyLong (uint x))" for x
  proof (rule decodes_single)
    have "uint x < 2 ^ 16"
      using uint_bounded [of x] by simp
    then have "PyLong_FromLong 64 (uint x) = PyLong (uint x)"
      by (intro PyLong_FromLong_exact [where k = 16]) simp_all
    then show "from_entry_data_list 64 [?u x] = Inr (PyLong (uint x), [?u x])"
      by (simp add: from_entry_data_list_Cons entry_data_def MMDB_DATA_TYPE_defs)
  qed (simp_all add: entry_data_def MMDB_DATA_TYPE_defs)
  have "list_all2 (decodes 64) [[?u 1], [?u 2]] [PyLong 1, PyLong 2]"
    using d [of 1] d [of 2] by simp
  moreover have "list_all string_key [?k, ?k]"
    by (simp add: string_key_def key_of_def entry_data_def octet_in_def)
  ultimately show ?thesis
    using map_last_key_wins [of "entry_data MMDB_DATA_TYPE_MAP 2" "[[?u 1], [?u 2]]" "[?k, ?k]"
        64 "[PyLong 1, PyLong 2]" _ "[]", OF _ _ _ _ _ refl]
    by (simp add: entry_data_def key_of_def dict_of_pairs_def)
qed


text \<open>
  Without the condition on the keys the loop does not get that far: a key whose octets
  do not decode is \<^verbatim>\<open>NULL\<close>, and \<^verbatim>\<open>PyDict_SetItem\<close> reads through it.
\<close>

lemma map_with_undecodable_key:
  "from_entry_data_list 64
     [entry_data MMDB_DATA_TYPE_MAP 1,
      (entry_data MMDB_DATA_TYPE_UTF8_STRING 1)\<lparr>utf8_string := [CHR 0xFF]\<rparr>,
      (entry_data MMDB_DATA_TYPE_UINT16 0)\<lparr>uint16 := 1\<rparr>] = Inl NULL_dereference"
  by (simp add: from_entry_data_list_Cons from_map.simps from_map_loop.simps
      PyDict_New_def PyLong_FromLong_def PyUnicode_FromStringAndSize_def
      MMDB_DATA_TYPE_defs entry_data_def octet_in_def utf8_lead2_def)

section \<open>Failure inside a container\<close>

lemma from_array_loop_fails:
  assumes "list_all2 (decodes LONG_BIT) segs vs"
  shows "i + length segs < n \<Longrightarrow> from_entry_data_list LONG_BIT r = Inl err \<Longrightarrow>
         from_array_loop LONG_BIT i n py_obj (c0 # concat segs @ r) = Inl err"
  using assms
proof (induction segs vs arbitrary: i py_obj c0 rule: list_all2_induct)
  case Nil
  then show ?case
    by (subst from_array_loop.simps) simp
next
  case (Cons seg segs v vs)
  from Cons.hyps(1) have
    dec: "from_entry_data_list LONG_BIT (seg @ concat segs @ r) =
            Inr (v, last seg # concat segs @ r)"
    by (simp add: decodes_def)
  have "from_array_loop LONG_BIT i n py_obj (c0 # concat (seg # segs) @ r) =
      from_array_loop LONG_BIT (i + 1) n (PyList_SetItem py_obj i v)
        (last seg # concat segs @ r)"
    using Cons.prems(1) dec by (subst from_array_loop.simps) simp
  also have "\<dots> = Inl err"
    using Cons.prems by (intro Cons.IH) simp_all
  finally show ?case .
qed

lemma from_map_loop_fails:
  assumes "list_all2 (decodes LONG_BIT) segs vs"
  shows "length ks = length segs \<Longrightarrow> list_all string_key ks \<Longrightarrow> string_key k \<Longrightarrow>
         i + length segs < n \<Longrightarrow> from_entry_data_list LONG_BIT r = Inl err \<Longrightarrow>
         from_map_loop LONG_BIT i n py_obj (c0 # map_pairs ks segs @ k # r) = Inl err"
  using assms
proof (induction segs vs arbitrary: ks i py_obj c0 rule: list_all2_induct)
  case Nil
  then show ?case
    by (subst from_map_loop.simps) (simp add: string_key_object)
next
  case (Cons seg segs v vs)
  from Cons.prems(1) obtain k' ks' where ks: "ks = k' # ks'" and len: "length ks' = length segs"
    by (cases ks) simp_all
  from Cons.prems(2) have key: "string_key k'" and keys: "list_all string_key ks'"
    by (simp_all add: ks)
  from Cons.hyps(1) have
    dec: "from_entry_data_list LONG_BIT (seg @ map_pairs ks' segs @ k # r) =
            Inr (v, last seg # map_pairs ks' segs @ k # r)"
    by (simp add: decodes_def)
  have "from_map_loop LONG_BIT i n py_obj (c0 # map_pairs ks (seg # segs) @ k # r) =
      from_map_loop LONG_BIT (i + 1) n (PyDict_SetItem py_obj (PyUnicode (key_of k')) v)
        (last seg # map_pairs ks' segs @ k # r)"
    using Cons.prems(4) dec
    by (subst from_map_loop.simps) (simp add: ks string_key_object [OF key])
  also have "\<dots> = Inl err"
    using Cons.prems len keys by (intro Cons.IH) simp_all
  finally show ?case .
qed

text \<open>
  C5. While an array or a map is being filled, after any number of well-formed
  elements or pairs, the nested call for the next element or value fails with a Python
  exception: that exception is the result of the whole call, with no list or dict,
  partial or otherwise. The nested call may itself be a container that failed in this
  way, so the exception of the innermost call reaches the outermost caller unchanged.
  The keys of a map are string nodes whose octets decode: the loop does not test the
  key object, and with a key that is \<^verbatim>\<open>NULL\<close> the failure path reads through it.
\<close>

theorem nested_failure_propagates:
  assumes "list_all2 (decodes LONG_BIT) segs vs"
    and "length segs < unat (data_size c)"
    and "from_entry_data_list LONG_BIT r = Inl err"
    and "err \<noteq> NULL_dereference"
  shows "(type c = MMDB_DATA_TYPE_ARRAY \<longrightarrow>
            from_entry_data_list LONG_BIT (c # concat segs @ r) = Inl err) \<and>
         (type c = MMDB_DATA_TYPE_MAP \<and> length ks = length segs \<and>
          list_all string_key ks \<and> string_key k \<longrightarrow>
            from_entry_data_list LONG_BIT (c # map_pairs ks segs @ k # r) = Inl err)"
proof (intro conjI impI)
  assume "type c = MMDB_DATA_TYPE_ARRAY"
  then have "from_entry_data_list LONG_BIT (c # concat segs @ r) =
      from_array_loop LONG_BIT 0 (unat (data_size c)) (PyList_New (data_size c))
        (c # concat segs @ r)"
    by (simp add: from_entry_data_list_Cons from_array.simps MMDB_DATA_TYPE_defs)
  also have "\<dots> = Inl err"
    using assms(1,2,3) by (intro from_array_loop_fails) simp_all
  finally show "from_entry_data_list LONG_BIT (c # concat segs @ r) = Inl err" .
next
  assume a: "type c = MMDB_DATA_TYPE_MAP \<and> length ks = length segs \<and>
      list_all string_key ks \<and> string_key k"
  then have "from_entry_data_list LONG_BIT (c # map_pairs ks segs @ k # r) =
      from_map_loop LONG_BIT 0 (unat (data_size c)) PyDict_New (c # map_pairs ks segs @ k # r)"
    by (simp add: from_entry_data_list_Cons from_map.simps MMDB_DATA_TYPE_defs)
  also have "\<dots> = Inl err"
    using assms(1,2,3) a by (intro from_map_loop_fails) simp_all
  finally show "from_entry_data_list LONG_BIT (c # map_pairs ks segs @ k # r) = Inl err" .
qed

theorem nested_failure_propagates_witness:
  "from_entry_data_list 64
     [entry_data MMDB_DATA_TYPE_ARRAY 2,
      (entry_data MMDB_DATA_TYPE_UTF8_STRING 1)\<lparr>utf8_string := ''A''\<rparr>,
      entry_data MMDB_DATA_TYPE_MAP 1,
      (entry_data MMDB_DATA_TYPE_UTF8_STRING 1)\<lparr>utf8_string := ''k''\<rparr>,
      entry_data 13 0] = Inl (Invalid_data_type 13)"
proof -
  let ?s = "\<lambda>x. (entry_data MMDB_DATA_TYPE_UTF8_STRING 1)\<lparr>utf8_string := x\<rparr>"
  let ?m = "entry_data MMDB_DATA_TYPE_MAP 1"
  have bad: "from_entry_data_list 64 [entry_data 13 0] = Inl (Invalid_data_type 13)"
    by (simp add: from_entry_data_list_Cons entry_data_def MMDB_DATA_TYPE_defs)
  have exc: "Invalid_data_type 13 \<noteq> NULL_dereference"
    by simp
  have key: "string_key (?s ''k'')"
    by (simp add: string_key_def key_of_def entry_data_def octet_in_def)
  have inner: "from_entry_data_list 64 [?m, ?s ''k'', entry_data 13 0] =
      Inl (Invalid_data_type 13)"
    using nested_failure_propagates [of 64 "[]" "[]" ?m "[entry_data 13 0]"
        "Invalid_data_type 13" "[]" "?s ''k''", OF _ _ bad exc] key
    by (simp add: entry_data_def)
  have d: "decodes 64 [?s ''A''] (PyUnicode ''A'')"
    by (rule decodes_single)
      (simp_all add: from_entry_data_list_Cons entry_data_def MMDB_DATA_TYPE_defs
        PyUnicode_FromStringAndSize_def octet_in_def)
  then have "list_all2 (decodes 64) [[?s ''A'']] [PyUnicode ''A'']"
    by simp
  from nested_failure_propagates [of 64 "[[?s ''A'']]" "[PyUnicode ''A'']"
      "entry_data MMDB_DATA_TYPE_ARRAY 2" "[?m, ?s ''k'', entry_data 13 0]"
      "Invalid_data_type 13" "[]" "?s ''k''", OF this _ inner exc]
  show ?thesis
    by (simp add: entry_data_def MMDB_DATA_TYPE_defs)
qed


section \<open>Truncated lists\<close>

lemma from_map_loop_truncated:
  assumes "list_all2 (decodes LONG_BIT) segs vs"
  shows "length ks = length segs \<Longrightarrow> i + length segs < n \<Longrightarrow>
         t = [] \<or> (\<exists>k r. t = k # r \<and> from_entry_data_list LONG_BIT r = Inl NULL_dereference) \<Longrightarrow>
         from_map_loop LONG_BIT i n py_obj (c0 # map_pairs ks segs @ t) = Inl NULL_dereference"
  using assms
proof (induction segs vs arbitrary: ks i py_obj c0 rule: list_all2_induct)
  case Nil
  then show ?case
    by (subst from_map_loop.simps) auto
next
  case (Cons seg segs v vs)
  from Cons.prems(1) obtain k' ks' where ks: "ks = k' # ks'" and len: "length ks' = length segs"
    by (cases ks) simp_all
  let ?key = "PyUnicode_FromStringAndSize (utf8_string k') (data_size k')"
  from Cons.hyps(1) have
    dec: "from_entry_data_list LONG_BIT (seg @ map_pairs ks' segs @ t) =
            Inr (v, last seg # map_pairs ks' segs @ t)"
    by (simp add: decodes_def)
  show ?case
  proof (cases "?key = NULL")
    case True
    then show ?thesis
      using Cons.prems(2) dec by (subst from_map_loop.simps) (simp add: ks)
  next
    case False
    then have "from_map_loop LONG_BIT i n py_obj (c0 # map_pairs ks (seg # segs) @ t) =
        from_map_loop LONG_BIT (i + 1) n (PyDict_SetItem py_obj ?key v)
          (last seg # map_pairs ks' segs @ t)"
      using Cons.prems(2) dec by (subst from_map_loop.simps) (simp add: ks)
    also have "\<dots> = Inl NULL_dereference"
      using Cons.prems len by (intro Cons.IH) simp_all
    finally show ?thesis .
  qed
qed

text \<open>
  A container whose list ends before its count is met, after any number of well-formed
  elements or pairs (for a map also after a key without its value): the decoder reads
  through the \<^verbatim>\<open>NULL\<close> that ends the list, or before that through a key that is
  \<^verbatim>\<open>NULL\<close>.
\<close>

lemma truncated_container:
  assumes "list_all2 (decodes LONG_BIT) segs vs"
    and "length segs < unat (data_size c)"
  shows "(type c = MMDB_DATA_TYPE_ARRAY \<longrightarrow>
            from_entry_data_list LONG_BIT (c # concat segs) = Inl NULL_dereference) \<and>
         (type c = MMDB_DATA_TYPE_MAP \<and> length ks = length segs \<longrightarrow>
            from_entry_data_list LONG_BIT (c # map_pairs ks segs) = Inl NULL_dereference \<and>
            from_entry_data_list LONG_BIT (c # map_pairs ks segs @ [k]) = Inl NULL_dereference)"
proof (intro conjI impI)
  assume "type c = MMDB_DATA_TYPE_ARRAY"
  then have "from_entry_data_list LONG_BIT (c # concat segs) =
      from_array_loop LONG_BIT 0 (unat (data_size c)) (PyList_New (data_size c))
        (c # concat segs @ [])"
    by (simp add: from_entry_data_list_Cons from_array.simps MMDB_DATA_TYPE_defs)
  also have "\<dots> = Inl NULL_dereference"
    using assms by (intro from_array_loop_fails) (simp_all add: from_entry_data_list_Nil)
  finally show "from_entry_data_list LONG_BIT (c # concat segs) = Inl NULL_dereference" .
next
  assume a: "type c = MMDB_DATA_TYPE_MAP \<and> length ks = length segs"
  then have "from_entry_data_list LONG_BIT (c # map_pairs ks segs) =
      from_map_loop LONG_BIT 0 (unat (data_size c)) PyDict_New (c # map_pairs ks segs @ [])"
    by (simp add: from_entry_data_list_Cons from_map.simps MMDB_DATA_TYPE_defs)
  also have "\<dots> = Inl NULL_dereference"
    using assms a by (intro from_map_loop_truncated) simp_all
  finally show "from_entry_data_list LONG_BIT (c # map_pairs ks segs) = Inl NULL_dereference" .
next
  assume a: "type c = MMDB_DATA_TYPE_MAP \<and> length ks = length segs"
  then have "from_entry_data_list LONG_BIT (c # map_pairs ks segs @ [k]) =
      from_map_loop LONG_BIT 0 (unat (data_size c)) PyDict_New (c # map_pairs ks segs @ [k])"
    by (simp add: from_entry_data_list_Cons from_map.simps MMDB_DATA_TYPE_defs)
  also have "\<dots> = Inl NULL_dereference"
    using assms a by (intro from_map_loop_truncated) (simp_all add: from_entry_data_list_Nil)
  finally show "from_entry_data_list LONG_BIT (c # map_pairs ks segs @ [k]) =
      Inl NULL_dereference" .
qed

text \<open>
  C1. A map node of size 2 followed by one key and one value, and an array node of
  size 2 followed by one element: the second round of the loop moves the cursor to
  \<^verbatim>\<open>NULL\<close> and reads through it. No exception is raised.
\<close>

theorem truncated_sequence_null_dereference:
  "from_entry_data_list 64
     [entry_data MMDB_DATA_TYPE_MAP 2,
      (entry_data MMDB_DATA_TYPE_UTF8_STRING 1)\<lparr>utf8_string := ''a''\<rparr>,
      (entry_data MMDB_DATA_TYPE_UINT16 0)\<lparr>uint16 := 1\<rparr>] = Inl NULL_dereference \<and>
   from_entry_data_list 64
     [entry_data MMDB_DATA_TYPE_ARRAY 2,
      (entry_data MMDB_DATA_TYPE_UINT16 0)\<lparr>uint16 := 1\<rparr>] = Inl NULL_dereference"
  by (simp add: from_entry_data_list_Cons from_entry_data_list_Nil from_map.simps
      from_array.simps from_map_loop.simps from_array_loop.simps
      PyDict_New_def PyList_New_def PyLong_FromLong_def PyUnicode_FromStringAndSize_def
      MMDB_DATA_TYPE_defs entry_data_def)


section \<open>128-bit integers\<close>

lemma digit_value_hex_digit:
  assumes "d < 16"
  shows "digit_value (hex_digit d) = Some d"
proof -
  from assms have "d = 0 \<or> d = 1 \<or> d = 2 \<or> d = 3 \<or> d = 4 \<or> d = 5 \<or> d = 6 \<or> d = 7 \<or>
      d = 8 \<or> d = 9 \<or> d = 10 \<or> d = 11 \<or> d = 12 \<or> d = 13 \<or> d = 14 \<or> d = 15"
    by arith
  then show ?thesis
    by (elim disjE) (simp_all add: hex_digit_def digit_value_def)
qed

lemma hex_value_append:
  "hex_value acc (xs @ ys) =
     (case hex_value acc xs of None \<Rightarrow> None | Some a \<Rightarrow> hex_value a ys)"
  by (induction xs arbitrary: acc) (simp_all split: option.splits)

lemma hex_value_hex_digits:
  "hex_value acc (hex_digits k n) = Some (acc * 16 ^ k + int (n mod 16 ^ k))"
proof (induction k arbitrary: n acc)
  case 0
  show ?case by simp
next
  case (Suc k)
  have "n mod (16 * 16 ^ k) = 16 * (n div 16 mod 16 ^ k) + n mod 16"
    by (rule mod_mult2_eq)
  then show ?case
    by (simp add: hex_value_append Suc.IH digit_value_hex_digit algebra_simps)
qed

lemma length_hex_digits [simp]: "length (hex_digits k n) = k"
  by (induction k arbitrary: n) simp_all

lemma PyLong_FromString_16_PRIX64:
  "PyLong_FromString_16 (PRIX64_016 high @ PRIX64_016 low) =
     Inr (PyLong (uint high * 2 ^ 64 + uint low))"
proof -
  have h: "unat high mod 16 ^ 16 = unat high" and l: "unat low mod 16 ^ 16 = unat low"
    using unsigned_less [of high, where 'a = nat] unsigned_less [of low, where 'a = nat]
    by simp_all
  have "PRIX64_016 high @ PRIX64_016 low \<noteq> []"
    using length_hex_digits [of 16 "unat high"] unfolding PRIX64_016_def by fastforce
  moreover have "hex_value 0 (PRIX64_016 high @ PRIX64_016 low) =
      Some (uint high * 2 ^ 64 + uint low)"
    unfolding PRIX64_016_def hex_value_append hex_value_hex_digits h l
    by simp
  ultimately show ?thesis
    by (simp add: PyLong_FromString_16_def)
qed

lemma unat_shift_or_byte:
  fixes h :: "64 word" and x :: "8 word"
  assumes "unat h < 2 ^ 56"
  shows "unat (push_bit 8 h OR ucast x) = unat h * 256 + unat x"
proof -
  have x: "unat x < 2 ^ 8"
    using unsigned_less [of x, where 'a = nat] by simp
  have "unat h * 256 < 2 ^ 64"
    using assms by simp
  then have "take_bit 64 (push_bit 8 (unat h)) = unat h * 256"
    by (simp add: push_bit_eq_mult take_bit_nat_eq_self)
  then have a: "unat (push_bit 8 h) = unat h * 256"
    by (simp only: unsigned_push_bit_eq len_bit0 len_num1 mult_numeral_1_right numeral_times_numeral
        semiring_norm)
  have b: "unat (ucast x :: 64 word) = unat x"
    using x by (simp add: unsigned_ucast_eq take_bit_nat_eq_self)
  have "push_bit 8 (unat h) AND take_bit 8 (unat x) = 0"
    by (auto simp: bit_eq_iff bit_simps)
  moreover have "take_bit 8 (unat x) = unat x"
    using x by (simp add: take_bit_nat_eq_self)
  ultimately have "push_bit 8 (unat h) AND unat x = 0"
    by simp
  then have "unat h * 256 OR unat x = unat h * 256 + unat x"
    by (simp add: disjunctive_add_eq_or push_bit_eq_mult)
  then show ?thesis
    by (simp add: unsigned_or_eq a b)
qed


lemma unat_foldl_bytes:
  fixes h :: "64 word"
  shows "(unat h + 1) * 256 ^ length idx \<le> 2 ^ 64 \<Longrightarrow>
         unat (foldl (\<lambda>high i. push_bit 8 high OR ucast (b ! i :: 8 word)) h idx) =
           foldl (\<lambda>a x. a * 256 + unat x) (unat h) (map ((!) b) idx)"
proof (induction idx arbitrary: h)
  case Nil
  show ?case by simp
next
  case (Cons i idx)
  let ?h = "push_bit 8 h OR ucast (b ! i) :: 64 word"
  have x: "unat (b ! i) < 256"
    using unsigned_less [of "b ! i", where 'a = nat] by simp
  define N :: nat where "N = 256 ^ length idx"
  have N: "1 \<le> N"
    by (simp add: N_def)
  have prem: "(unat h + 1) * (256 * N) \<le> 2 ^ 64"
    using Cons.prems by (simp add: N_def)
  have "(unat h + 1) * 256 * 1 \<le> (unat h + 1) * 256 * N"
    using N by (rule mult_le_mono2)
  with prem have "(unat h + 1) * 256 \<le> 2 ^ 64"
    by (simp only: mult.assoc mult_1_right order_trans)
  then have "unat h < 2 ^ 56"
    by simp
  then have h': "unat ?h = unat h * 256 + unat (b ! i)"
    by (rule unat_shift_or_byte)
  have "unat ?h + 1 \<le> (unat h + 1) * 256"
    using x by (simp add: h')
  then have "(unat ?h + 1) * N \<le> ((unat h + 1) * 256) * N"
    by (rule mult_le_mono1)
  with prem have "(unat ?h + 1) * N \<le> 2 ^ 64"
    by (simp only: mult.assoc order_trans)
  then have "(unat ?h + 1) * 256 ^ length idx \<le> 2 ^ 64"
    by (simp only: N_def)
  then show ?case
    by (simp add: Cons.IH h')
qed

lemma foldl_big_endian_acc:
  "foldl (\<lambda>a x. a * 256 + unat (x :: 8 word)) a bs = a * 256 ^ length bs + big_endian bs"
  unfolding big_endian_def
proof (induction bs rule: rev_induct)
  case Nil
  show ?case by simp
next
  case (snoc x bs)
  then show ?case by (simp add: algebra_simps)
qed

lemma big_endian_append:
  "big_endian (xs @ ys) = big_endian xs * 256 ^ length ys + big_endian ys"
  using foldl_big_endian_acc [of "big_endian xs" ys]
  by (simp add: big_endian_def)

lemma from_uint128_bytes:
  assumes "uint128 e = Uint128_bytes b" "length b = 16"
  shows "from_uint128 (e # es) =
           Inr (PyLong (int (big_endian (take 8 b)) * 2 ^ 64 + int (big_endian (drop 8 b))))"
proof -
  let ?f = "\<lambda>high i. push_bit 8 high OR ucast (b ! i) :: 64 word"
  have "take 8 (map ((!) b) [0..<length b]) = map ((!) b) [0..<8]"
    by (simp only: take_map take_upt assms(2)) simp
  then have t: "map ((!) b) [0..<8] = take 8 b"
    by (simp only: map_nth)
  have "drop 8 (map ((!) b) [0..<length b]) = map ((!) b) [8..<16]"
    by (simp only: drop_map drop_upt assms(2)) simp
  then have d: "map ((!) b) [8..<16] = drop 8 b"
    by (simp only: map_nth)
  have "unat (foldl ?f 0 [0..<8]) = foldl (\<lambda>a x. a * 256 + unat x) (unat (0 :: 64 word))
      (map ((!) b) [0..<8])"
    by (rule unat_foldl_bytes) simp
  then have "unat (foldl ?f 0 [0..<8]) = big_endian (take 8 b)"
    by (simp only: t big_endian_def unsigned_0)
  then have high: "uint (foldl ?f 0 [0..<8]) = int (big_endian (take 8 b))"
    by (simp only: uint_nat)
  have "unat (foldl ?f 0 [8..<16]) = foldl (\<lambda>a x. a * 256 + unat x) (unat (0 :: 64 word))
      (map ((!) b) [8..<16])"
    by (rule unat_foldl_bytes) simp
  then have "unat (foldl ?f 0 [8..<16]) = big_endian (drop 8 b)"
    by (simp only: d big_endian_def unsigned_0)
  then have low: "uint (foldl ?f 0 [8..<16]) = int (big_endian (drop 8 b))"
    by (simp only: uint_nat)
  show ?thesis
    by (simp only: from_uint128_def list.case assms(1) mmdb_uint128_t.case Let_def
        prod.case PyLong_FromString_16_PRIX64 high low)
qed

lemma uint128_halves:
  fixes u :: "128 word"
  shows "uint (ucast (drop_bit 64 u) :: 64 word) = uint (drop_bit 64 u)"
    and "uint (ucast u :: 64 word) = uint (take_bit 64 u)"
    and "uint (drop_bit 64 u) * 2 ^ 64 + uint (take_bit 64 u) = uint u"
proof -
  have "uint (drop_bit 64 u) = drop_bit 64 (uint u)"
    by (simp add: unsigned_drop_bit_eq take_bit_int_eq_self uint_bounded [of u, simplified]
        unsigned_less [of u, where 'a = int, simplified])
  moreover have "uint u < 2 ^ 128"
    using unsigned_less [of u, where 'a = int] by simp
  ultimately have small: "uint (drop_bit 64 u) < 2 ^ 64"
    by (simp add: drop_bit_eq_div)
  have "0 \<le> uint (drop_bit 64 u)"
    by simp
  with small show "uint (ucast (drop_bit 64 u) :: 64 word) = uint (drop_bit 64 u)"
    by (simp add: unsigned_ucast_eq take_bit_int_eq_self)
  show "uint (ucast u :: 64 word) = uint (take_bit 64 u)"
    by (simp add: unsigned_ucast_eq unsigned_take_bit_eq)
  have tb: "uint (take_bit 64 u) = uint u mod 2 ^ 64"
    by (simp only: unsigned_take_bit_eq) (simp only: take_bit_eq_mod)
  have db: "uint (drop_bit 64 u) = uint u div 2 ^ 64"
    using \<open>uint (drop_bit 64 u) = drop_bit 64 (uint u)\<close> by (simp only: drop_bit_eq_div)
  show "uint (drop_bit 64 u) * 2 ^ 64 + uint (take_bit 64 u) = uint u"
    by (simp only: tb db div_mult_mod_eq)
qed

lemma from_uint128_native:
  assumes "uint128 e = Uint128_native u"
  shows "from_uint128 (e # es) =
           Inr (PyLong (uint (drop_bit 64 u) * 2 ^ 64 + uint (take_bit 64 u)))"
proof -
  have "from_uint128 (e # es) =
      PyLong_FromString_16 (PRIX64_016 (ucast (drop_bit 64 u)) @ PRIX64_016 (ucast u))"
    by (simp only: from_uint128_def list.case assms mmdb_uint128_t.case Let_def prod.case)
  also have "\<dots> = Inr (PyLong (uint (ucast (drop_bit 64 u) :: 64 word) * 2 ^ 64 +
      uint (ucast u :: 64 word)))"
    by (rule PyLong_FromString_16_PRIX64)
  also have "uint (ucast (drop_bit 64 u) :: 64 word) = uint (drop_bit 64 u)"
    by (rule uint128_halves(1))
  also have "uint (ucast u :: 64 word) = uint (take_bit 64 u)"
    by (rule uint128_halves(2))
  finally show ?thesis .
qed

text \<open>
  C3. A uint128 node decodes to the Python integer \<open>high * 2 ^ 64 + low\<close>, exactly. For
  the sixteen-octet payload \<open>high\<close> and \<open>low\<close> are the big-endian values of the first and
  the last eight octets, and the result is the big-endian value of all sixteen; for the
  native payload they are the value shifted right by 64 bits and its low 64 bits, and
  the result is the value itself.
\<close>

theorem uint128_exact:
  assumes "type e = MMDB_DATA_TYPE_UINT128"
  shows "(uint128 e = Uint128_bytes b \<and> length b = 16 \<longrightarrow>
            from_entry_data_list LONG_BIT (e # es) =
              Inr (PyLong (int (big_endian (take 8 b)) * 2 ^ 64 + int (big_endian (drop 8 b))),
                   e # es) \<and>
            big_endian (take 8 b) * 2 ^ 64 + big_endian (drop 8 b) = big_endian b) \<and>
         (uint128 e = Uint128_native u \<longrightarrow>
            from_entry_data_list LONG_BIT (e # es) =
              Inr (PyLong (uint (drop_bit 64 u) * 2 ^ 64 + uint (take_bit 64 u)), e # es) \<and>
            uint (drop_bit 64 u) * 2 ^ 64 + uint (take_bit 64 u) = uint u)"
proof (intro conjI impI)
  assume a: "uint128 e = Uint128_bytes b \<and> length b = 16"
  then show "from_entry_data_list LONG_BIT (e # es) =
      Inr (PyLong (int (big_endian (take 8 b)) * 2 ^ 64 + int (big_endian (drop 8 b))), e # es)"
    using assms
    by (simp add: from_entry_data_list_Cons from_uint128_bytes MMDB_DATA_TYPE_defs)
  from a have "length (drop 8 b) = 8"
    by simp
  then have "big_endian (take 8 b @ drop 8 b) =
      big_endian (take 8 b) * 256 ^ 8 + big_endian (drop 8 b)"
    by (simp only: big_endian_append)
  then show "big_endian (take 8 b) * 2 ^ 64 + big_endian (drop 8 b) = big_endian b"
    by simp
next
  assume "uint128 e = Uint128_native u"
  then show "from_entry_data_list LONG_BIT (e # es) =
      Inr (PyLong (uint (drop_bit 64 u) * 2 ^ 64 + uint (take_bit 64 u)), e # es)"
    using assms
    by (simp add: from_entry_data_list_Cons from_uint128_native MMDB_DATA_TYPE_defs)
next
  show "uint (drop_bit 64 u) * 2 ^ 64 + uint (take_bit 64 u) = uint u"
    by (rule uint128_halves(3))
qed

theorem uint128_exact_witness:
  "from_entry_data_list 64
     [(entry_data MMDB_DATA_TYPE_UINT128 16)
        \<lparr>uint128 := Uint128_bytes [0, 0, 0, 0, 0, 0, 0, 1, 0, 0, 0, 0, 0, 0, 0, 2]\<rparr>] =
   Inr (PyLong 18446744073709551618,
     [(entry_data MMDB_DATA_TYPE_UINT128 16)
        \<lparr>uint128 := Uint128_bytes [0, 0, 0, 0, 0, 0, 0, 1, 0, 0, 0, 0, 0, 0, 0, 2]\<rparr>]) \<and>
   from_entry_data_list 64
     [(entry_data MMDB_DATA_TYPE_UINT128 16)
        \<lparr>uint128 := Uint128_native 0x00000000000000010000000000000002\<rparr>] =
   Inr (PyLong 18446744073709551618,
     [(entry_data MMDB_DATA_TYPE_UINT128 16)
        \<lparr>uint128 := Uint128_native 0x00000000000000010000000000000002\<rparr>])"
proof -
  let ?b = "[0, 0, 0, 0, 0, 0, 0, 1, 0, 0, 0, 0, 0, 0, 0, 2] :: 8 word list"
  let ?u = "0x00000000000000010000000000000002 :: 128 word"
  have "uint (drop_bit 64 ?u) * 2 ^ 64 + uint (take_bit 64 ?u) = uint ?u"
    by (rule uint128_halves(3))
  then have u: "uint (drop_bit 64 ?u) * 2 ^ 64 + uint (take_bit 64 ?u) = 18446744073709551618"
    by simp
  show ?thesis
    using uint128_exact [of "(entry_data MMDB_DATA_TYPE_UINT128 16)\<lparr>uint128 := Uint128_bytes ?b\<rparr>"
        ?b 64 "[]" ?u]
      uint128_exact [of "(entry_data MMDB_DATA_TYPE_UINT128 16)\<lparr>uint128 := Uint128_native ?u\<rparr>"
        ?b 64 "[]" ?u]
    by (simp add: entry_data_def big_endian_def u)
qed

end
